theory Spec2Isabelle
  imports Main "HOL-Library.AList" "HOL-Library.Char_ord" "HOL-Library.List_Lexorder"
begin

section \<open>Data model\<close>

text \<open>
  The three bundler plugins (\<^verbatim>\<open>DefaultBundler.js\<close>, \<^verbatim>\<open>OptimizeBundler.js\<close> and the
  wrap-marking bundler) work on a mutable bundle graph that their host owns.
  Assets, dependencies, bundles and bundle groups are records; a graph node is an
  asset or a dependency, as the public traversals present them.
\<close>

type_synonym target = string

record environment =
  env_context :: string
  env_isolated :: bool

definition isIsolated :: "environment \<Rightarrow> bool" where
  "isIsolated env = env_isolated env"

record asset =
  a_id :: string
  a_type :: string
  a_env :: environment
  a_isIsolated :: bool
  a_isInline :: bool
  a_isSplittable :: bool

record dependency =
  d_id :: string
  d_isEntry :: bool
  d_isAsync :: bool
  d_target :: "target option"
  d_shouldWrap :: bool

datatype node = AssetNode asset | DependencyNode dependency

text \<open>
  Modelled from the spec: the traversals of the host (\<^verbatim>\<open>traverse\<close>, \<^verbatim>\<open>traverseContents\<close>,
  \<^verbatim>\<open>bundle.traverse\<close>) visit every node once, in a fixed depth-first order; the nodes with
  the parent through which each is first reached form a forest, which is what a
  traversal receives here.
\<close>

datatype tree = Tree node "tree list"

record bundle_rec =
  b_id :: string
  b_type :: string
  b_env :: environment
  b_target :: target
  b_isEntry :: bool
  b_isInline :: bool
  b_isSplittable :: bool
  b_entryAsset :: "asset option"
  b_uniqueKey :: "string option"

record bundle_group =
  bg_dependency :: dependency
  bg_target :: target

text \<open>
  The bundle graph: the bundles and bundle groups in creation order, the membership
  relation (bundles of a group), the containment relation (assets of a bundle), the
  asset references and the internalized async dependencies.
\<close>

record bundle_graph =
  bundles :: "bundle_rec list"
  bundleGroups :: "bundle_group list"
  groupBundles :: "bundle_group \<Rightarrow> bundle_rec list"
  bundleAssets :: "bundle_rec \<Rightarrow> asset list"
  assetReferences :: "(dependency \<times> asset) list"
  internalized :: "(bundle_rec \<times> dependency) list"

datatype external_resolution = BundleGroupResolution bundle_group | AssetResolution asset

text \<open>
  The queries of the host whose result the plugins only consume are parameters of the
  model: the asset graph (resolutions, subgraphs, sizes), the external resolution, the
  ancestor and parent queries, the bundles with a dependency, the forests and orders of
  the traversals, the id of a new bundle and the hash \<^verbatim>\<open>md5FromString\<close>.
\<close>

record host =
  getDependencyAssets :: "dependency \<Rightarrow> asset list"
  getDependencyResolution :: "dependency \<Rightarrow> asset option"
  getDependencyResolutionIn :: "dependency \<Rightarrow> bundle_rec \<Rightarrow> asset option"
  resolveExternalDependency :: "bundle_graph \<Rightarrow> dependency \<Rightarrow> external_resolution option"
  assetGraph :: "asset \<Rightarrow> asset list"
  getTotalSize :: "asset \<Rightarrow> nat"
  isAssetInAncestorBundles :: "bundle_graph \<Rightarrow> bundle_rec \<Rightarrow> asset \<Rightarrow> bool"
  findBundlesWithDependency :: "bundle_graph \<Rightarrow> dependency \<Rightarrow> bundle_rec list"
  getParentBundlesOfBundleGroup :: "bundle_graph \<Rightarrow> bundle_group \<Rightarrow> bundle_rec list"
  bundlesEnterOrder :: "bundle_graph \<Rightarrow> bundle_rec list"
  bundlesExitOrder :: "bundle_graph \<Rightarrow> bundle_rec list"
  bundleNodes :: "bundle_graph \<Rightarrow> bundle_rec \<Rightarrow> tree list"
  graphNodes :: "bundle_graph \<Rightarrow> tree list"
  graphContents :: "bundle_graph \<Rightarrow> tree list"
  bundleIdOf :: "string \<Rightarrow> string"
  md5FromString :: "string \<Rightarrow> string"

datatype error =
  MissingContext
  | MissingTarget
  | ExternalResolutionMismatch
  | InvariantViolation
  | NullThrows
  | TypeError

section \<open>The bundle graph interface\<close>

text \<open>A JavaScript \<^verbatim>\<open>Set\<close> keeps insertion order and ignores a second \<^verbatim>\<open>add\<close>.\<close>

definition setAdd :: "'a \<Rightarrow> 'a list \<Rightarrow> 'a list" where
  "setAdd x xs = (if x \<in> set xs then xs else xs @ [x])"

definition newSet :: "'a list \<Rightarrow> 'a list" where
  "newSet xs = fold setAdd xs []"

text \<open>\<^verbatim>\<open>Array.prototype.join\<close>.\<close>

fun join :: "string \<Rightarrow> string list \<Rightarrow> string" where
  "join sep [] = []"
| "join sep [x] = x"
| "join sep (x # y # ys) = x @ sep @ join sep (y # ys)"

text \<open>Modelled from the spec: \<^verbatim>\<open>getBundlesInBundleGroup(group)\<close>, the members of a bundle
  group in the membership relation.\<close>

definition getBundlesInBundleGroup :: "bundle_graph \<Rightarrow> bundle_group \<Rightarrow> bundle_rec list" where
  "getBundlesInBundleGroup G gr = groupBundles G gr"

text \<open>Modelled from the spec: \<^verbatim>\<open>getBundleGroupsContainingBundle(bundle)\<close>, the groups of
  the graph that have the bundle as a member.\<close>

definition getBundleGroupsContainingBundle :: "bundle_graph \<Rightarrow> bundle_rec \<Rightarrow> bundle_group list" where
  "getBundleGroupsContainingBundle G b =
     filter (\<lambda>gr. b \<in> set (groupBundles G gr)) (bundleGroups G)"

text \<open>Modelled from the spec: \<^verbatim>\<open>getSiblingBundles(bundle)\<close>, the other bundles of the
  groups the bundle is in.\<close>

definition getSiblingBundles :: "bundle_graph \<Rightarrow> bundle_rec \<Rightarrow> bundle_rec list" where
  "getSiblingBundles G b =
     newSet (concat (map (\<lambda>gr. filter (\<lambda>s. b_id s \<noteq> b_id b) (getBundlesInBundleGroup G gr))
                         (getBundleGroupsContainingBundle G b)))"

text \<open>Modelled from the spec: \<^verbatim>\<open>bundle.hasAsset(asset)\<close> and
  \<^verbatim>\<open>findBundlesWithAsset(asset)\<close>, read off the containment relation.\<close>

definition hasAsset :: "bundle_graph \<Rightarrow> bundle_rec \<Rightarrow> asset \<Rightarrow> bool" where
  "hasAsset G b a = (a \<in> set (bundleAssets G b))"

definition findBundlesWithAsset :: "bundle_graph \<Rightarrow> asset \<Rightarrow> bundle_rec list" where
  "findBundlesWithAsset G a = filter (\<lambda>b. hasAsset G b a) (bundles G)"

text \<open>Modelled from the spec: \<^verbatim>\<open>bundle.getMainEntry()\<close>, the declared main entry of the
  bundle, absent for a bundle created from a unique key.\<close>

definition getMainEntry :: "bundle_rec \<Rightarrow> asset option" where
  "getMainEntry b = b_entryAsset b"

text \<open>Modelled from the spec: \<^verbatim>\<open>addBundleToBundleGroup(bundle, group)\<close> links the bundle
  to the group; membership is a relation, so linking a member again changes nothing.\<close>

definition addBundleToBundleGroup :: "bundle_graph \<Rightarrow> bundle_rec \<Rightarrow> bundle_group \<Rightarrow> bundle_graph" where
  "addBundleToBundleGroup G b gr =
     G\<lparr>groupBundles := (groupBundles G)(gr := setAdd b (groupBundles G gr))\<rparr>"

text \<open>Modelled from the spec: \<^verbatim>\<open>addAssetGraphToBundle(asset, bundle)\<close> and
  \<^verbatim>\<open>removeAssetGraphFromBundle(asset, bundle)\<close> attach to, or detach from, the bundle the
  asset with its reachable asset subgraph (\<open>assetGraph\<close> of the host).\<close>

definition addAssetGraphToBundle :: "host \<Rightarrow> bundle_graph \<Rightarrow> asset \<Rightarrow> bundle_rec \<Rightarrow> bundle_graph" where
  "addAssetGraphToBundle h G a b =
     G\<lparr>bundleAssets := (bundleAssets G)(b := fold setAdd (a # assetGraph h a) (bundleAssets G b))\<rparr>"

definition removeAssetGraphFromBundle :: "host \<Rightarrow> bundle_graph \<Rightarrow> asset \<Rightarrow> bundle_rec \<Rightarrow> bundle_graph" where
  "removeAssetGraphFromBundle h G a b =
     G\<lparr>bundleAssets := (bundleAssets G)
        (b := filter (\<lambda>x. x \<notin> set (a # assetGraph h a)) (bundleAssets G b))\<rparr>"

text \<open>Modelled from the spec: \<^verbatim>\<open>createBundle({entryAsset|uniqueKey, type, env, target,
  isEntry, isInline, isSplittable})\<close> adds a bundle with the given attributes; type,
  environment and splittability come from the entry asset when there is one, and the
  host derives the id from the unique key or the entry asset's id.\<close>

record bundle_opts =
  o_entryAsset :: "asset option"
  o_uniqueKey :: "string option"
  o_type :: "string option"
  o_env :: "environment option"
  o_target :: target
  o_isEntry :: bool
  o_isInline :: bool
  o_isSplittable :: bool

definition noEnv :: environment where
  "noEnv = \<lparr>env_context = [], env_isolated = False\<rparr>"

definition makeBundle :: "host \<Rightarrow> bundle_opts \<Rightarrow> bundle_rec" where
  "makeBundle h opts =
     \<lparr>b_id = bundleIdOf h (case o_uniqueKey opts of Some k \<Rightarrow> k
                            | None \<Rightarrow> (case o_entryAsset opts of Some a \<Rightarrow> a_id a | None \<Rightarrow> [])),
      b_type = (case o_type opts of Some t \<Rightarrow> t
                | None \<Rightarrow> (case o_entryAsset opts of Some a \<Rightarrow> a_type a | None \<Rightarrow> [])),
      b_env = (case o_env opts of Some e \<Rightarrow> e
               | None \<Rightarrow> (case o_entryAsset opts of Some a \<Rightarrow> a_env a | None \<Rightarrow> noEnv)),
      b_target = o_target opts,
      b_isEntry = o_isEntry opts,
      b_isInline = o_isInline opts,
      b_isSplittable = (case o_entryAsset opts of Some a \<Rightarrow> a_isSplittable a
                        | None \<Rightarrow> o_isSplittable opts),
      b_entryAsset = o_entryAsset opts,
      b_uniqueKey = o_uniqueKey opts\<rparr>"

definition createBundle :: "host \<Rightarrow> bundle_graph \<Rightarrow> bundle_opts \<Rightarrow> bundle_graph \<times> bundle_rec" where
  "createBundle h G opts =
     (let b = makeBundle h opts
      in (G\<lparr>bundles := bundles G @ [b], bundleAssets := (bundleAssets G)(b := [])\<rparr>, b))"

text \<open>Modelled from the spec: \<^verbatim>\<open>createBundleGroup(dep, target)\<close> adds a bundle group, with
  no member yet.\<close>

definition createBundleGroup :: "bundle_graph \<Rightarrow> dependency \<Rightarrow> target \<Rightarrow> bundle_graph \<times> bundle_group" where
  "createBundleGroup G dep t =
     (let gr = \<lparr>bg_dependency = dep, bg_target = t\<rparr>
      in (G\<lparr>bundleGroups := bundleGroups G @ [gr], groupBundles := (groupBundles G)(gr := [])\<rparr>, gr))"

text \<open>Modelled from the spec: \<^verbatim>\<open>createAssetReference(dep, asset)\<close>,
  \<^verbatim>\<open>internalizeAsyncDependency(bundle, dep)\<close> and \<^verbatim>\<open>removeBundleGroup(group)\<close>.\<close>

definition createAssetReference :: "bundle_graph \<Rightarrow> dependency \<Rightarrow> asset \<Rightarrow> bundle_graph" where
  "createAssetReference G dep a = G\<lparr>assetReferences := assetReferences G @ [(dep, a)]\<rparr>"

definition internalizeAsyncDependency :: "bundle_graph \<Rightarrow> bundle_rec \<Rightarrow> dependency \<Rightarrow> bundle_graph" where
  "internalizeAsyncDependency G b dep = G\<lparr>internalized := setAdd (b, dep) (internalized G)\<rparr>"

definition removeBundleGroup :: "bundle_graph \<Rightarrow> bundle_group \<Rightarrow> bundle_graph" where
  "removeBundleGroup G gr =
     G\<lparr>bundleGroups := filter (\<lambda>x. x \<noteq> gr) (bundleGroups G),
       groupBundles := (groupBundles G)(gr := [])\<rparr>"

text \<open>Modelled from the spec: a traversal whose visitor neither skips nor carries a
  context visits the nodes of the forest in preorder.\<close>

fun preorder :: "tree \<Rightarrow> node list" where
  "preorder (Tree n ts) = n # concat (map preorder ts)"

definition preorderAll :: "tree list \<Rightarrow> node list" where
  "preorderAll ts = concat (map preorder ts)"


section \<open>OptimizeBundler.js\<close>

definition minBundles :: nat where
  "minBundles = 1"

definition minBundleSize :: nat where
  "minBundleSize = 30000"

definition maxParallelRequests :: nat where
  "maxParallelRequests = 5"

subsection \<open>First pass: asset graphs that begin with the entry of another bundle\<close>

text \<open>The body of the loop over the candidates (lines 54 to 72): the groups of the
  candidate are read, all of them must have fewer than \<open>maxParallelRequests\<close> members,
  and then the main entry leaves the candidate and the bundle with its siblings joins
  every one of these groups.\<close>

definition hoistCandidate ::
  "host \<Rightarrow> bundle_rec \<Rightarrow> bundle_rec list \<Rightarrow> asset \<Rightarrow> bundle_rec \<Rightarrow> bundle_graph \<Rightarrow> bundle_graph" where
  "hoistCandidate h bundle siblings mainEntry candidate G =
     (let bundleGroups = getBundleGroupsContainingBundle G candidate
      in if list_all (\<lambda>group. length (getBundlesInBundleGroup G group) < maxParallelRequests)
              bundleGroups
         then fold (\<lambda>bundleGroup G1.
                      fold (\<lambda>bundleToAdd G2. addBundleToBundleGroup G2 bundleToAdd bundleGroup)
                           (bundle # siblings) G1)
                   bundleGroups (removeAssetGraphFromBundle h G mainEntry candidate)
         else G)"

definition hoistBundle :: "host \<Rightarrow> bundle_rec \<Rightarrow> bundle_graph \<Rightarrow> bundle_graph" where
  "hoistBundle h bundle G =
     (if b_isInline bundle \<or> \<not> b_isSplittable bundle then G
      else case getMainEntry bundle of
        None \<Rightarrow> G
      | Some mainEntry \<Rightarrow>
          (let siblings = filter (\<lambda>sibling. \<not> b_isInline sibling) (getSiblingBundles G bundle);
               candidates = filter (\<lambda>containingBundle.
                                b_id containingBundle \<noteq> b_id bundle \<and>
                                \<not> b_isEntry containingBundle \<and>
                                \<not> b_isInline containingBundle \<and>
                                b_isSplittable containingBundle)
                              (findBundlesWithAsset G mainEntry)
           in fold (hoistCandidate h bundle siblings mainEntry) candidates G))"

definition hoistAll :: "host \<Rightarrow> bundle_graph \<Rightarrow> bundle_graph" where
  "hoistAll h G = fold (hoistBundle h) (bundlesEnterOrder h G) G"

subsection \<open>Second pass: assets duplicated in a parent bundle\<close>

definition deduplicateAsset :: "host \<Rightarrow> bundle_rec \<Rightarrow> asset \<Rightarrow> bundle_graph \<Rightarrow> bundle_graph" where
  "deduplicateAsset h bundle asset G =
     (if hasAsset G bundle asset \<and> isAssetInAncestorBundles h G bundle asset
      then removeAssetGraphFromBundle h G asset bundle
      else G)"

definition deduplicateNode :: "host \<Rightarrow> bundle_rec \<Rightarrow> node \<Rightarrow> bundle_graph \<Rightarrow> bundle_graph" where
  "deduplicateNode h bundle n G =
     (case n of
        AssetNode x \<Rightarrow> G
      | DependencyNode dependency \<Rightarrow>
          fold (deduplicateAsset h bundle) (getDependencyAssets h dependency) G)"

definition deduplicateBundle :: "host \<Rightarrow> bundle_graph \<Rightarrow> bundle_rec \<Rightarrow> bundle_graph" where
  "deduplicateBundle h G bundle =
     (if isIsolated (b_env bundle) \<or> \<not> b_isSplittable bundle then G
      else fold (deduplicateNode h bundle) (preorderAll (bundleNodes h G bundle)) G)"

definition deduplicateAll :: "host \<Rightarrow> bundle_graph \<Rightarrow> bundle_graph" where
  "deduplicateAll h G = fold (\<lambda>bundle G1. deduplicateBundle h G1 bundle) (bundlesExitOrder h G) G"

subsection \<open>Third pass: shared bundles\<close>

record candidate =
  c_assets :: "asset list"
  c_sourceBundles :: "bundle_rec list"
  c_size :: nat

text \<open>\<open>candidateBundles\<close> is a JavaScript \<^verbatim>\<open>Map\<close>: an association list in insertion
  order, where setting a new key appends.\<close>

type_synonym candidateBundles = "(string \<times> candidate) list"

text \<open>Modelled from the spec: \<^verbatim>\<open>traverseContents(visitor)\<close>, a traversal whose visitor may
  skip the children of the node it is at (\<^verbatim>\<open>actions.skipChildren()\<close>).\<close>

fun traverseContents :: "(node \<Rightarrow> 's \<Rightarrow> 's \<times> bool) \<Rightarrow> tree \<Rightarrow> 's \<Rightarrow> 's"
  and traverseContentsList :: "(node \<Rightarrow> 's \<Rightarrow> 's \<times> bool) \<Rightarrow> tree list \<Rightarrow> 's \<Rightarrow> 's" where
  "traverseContents v (Tree n ts) s =
     (case v n s of (s1, skipChildren) \<Rightarrow>
        if skipChildren then s1 else traverseContentsList v ts s1)"
| "traverseContentsList v [] s = s"
| "traverseContentsList v (t # ts) s = traverseContentsList v ts (traverseContents v t s)"

definition containingBundlesOf :: "bundle_graph \<Rightarrow> asset \<Rightarrow> bundle_rec list" where
  "containingBundlesOf G asset =
     filter (\<lambda>b. \<not> b_isEntry b \<and> b_isSplittable b \<and>
                 (case getMainEntry b of None \<Rightarrow> True
                  | Some mainEntry \<Rightarrow> a_id mainEntry \<noteq> a_id asset))
            (findBundlesWithAsset G asset)"

definition candidateId :: "bundle_rec list \<Rightarrow> string" where
  "candidateId containingBundles = join '':'' (sort (map b_id containingBundles))"

definition collectCandidate ::
  "host \<Rightarrow> bundle_graph \<Rightarrow> node \<Rightarrow> candidateBundles \<Rightarrow> candidateBundles \<times> bool" where
  "collectCandidate h G n candidateBundles =
     (case n of
        DependencyNode x \<Rightarrow> (candidateBundles, False)
      | AssetNode asset \<Rightarrow>
          (let containingBundles = containingBundlesOf G asset
           in if length containingBundles > minBundles
              then (let ident = candidateId containingBundles
                    in case map_of candidateBundles ident of
                         Some candidate \<Rightarrow>
                           (AList.update ident
                              (candidate\<lparr>c_assets := c_assets candidate @ [asset],
                                 c_sourceBundles :=
                                   fold setAdd containingBundles (c_sourceBundles candidate),
                                 c_size := c_size candidate + getTotalSize h asset\<rparr>)
                              candidateBundles, True)
                       | None \<Rightarrow>
                           (AList.update ident
                              \<lparr>c_assets = [asset],
                               c_sourceBundles = newSet containingBundles,
                               c_size = getTotalSize h asset\<rparr>
                              candidateBundles, True))
              else (candidateBundles, False)))"

definition collectCandidates :: "host \<Rightarrow> bundle_graph \<Rightarrow> candidateBundles" where
  "collectCandidates h G = traverseContentsList (collectCandidate h G) (graphContents h G) []"

text \<open>\<^verbatim>\<open>Array.prototype.sort\<close> is stable; with the comparator \<^verbatim>\<open>b.size - a.size\<close> it sorts
  by descending size.\<close>

definition sortedCandidates :: "candidateBundles \<Rightarrow> candidate list" where
  "sortedCandidates candidateBundles =
     sort_key (\<lambda>c. - int (c_size c))
       (filter (\<lambda>c. c_size c \<ge> minBundleSize) (map snd candidateBundles))"

definition sharedBundleOpts :: "host \<Rightarrow> bundle_rec list \<Rightarrow> bundle_rec \<Rightarrow> bundle_opts" where
  "sharedBundleOpts h sourceBundles firstBundle =
     \<lparr>o_entryAsset = None,
      o_uniqueKey = Some (md5FromString h (join '':'' (map b_id sourceBundles))),
      o_type = Some (b_type firstBundle),
      o_env = Some (b_env firstBundle),
      o_target = b_target firstBundle,
      o_isEntry = False,
      o_isInline = False,
      o_isSplittable = True\<rparr>"

definition moveAsset :: "host \<Rightarrow> bundle_rec list \<Rightarrow> bundle_rec \<Rightarrow> asset \<Rightarrow> bundle_graph \<Rightarrow> bundle_graph" where
  "moveAsset h sourceBundles sharedBundle asset G =
     fold (\<lambda>bundle G1. removeAssetGraphFromBundle h G1 asset bundle) sourceBundles
          (addAssetGraphToBundle h G asset sharedBundle)"

definition connectedBundleGroups :: "bundle_graph \<Rightarrow> bundle_rec list \<Rightarrow> bundle_group list" where
  "connectedBundleGroups G sourceBundles =
     fold (\<lambda>bundle groups. fold setAdd (getBundleGroupsContainingBundle G bundle) groups)
          sourceBundles []"

text \<open>The body of the loop over the sorted candidates (lines 149 to 197). Destructuring
  the first source bundle of an empty set gives \<^verbatim>\<open>undefined\<close>, and reading its
  environment throws.\<close>

definition extractCandidate :: "host \<Rightarrow> candidate \<Rightarrow> bundle_graph \<Rightarrow> error + bundle_graph" where
  "extractCandidate h cand G =
     (let assets = c_assets cand;
          sourceBundles = c_sourceBundles cand;
          bundleGroups = connectedBundleGroups G sourceBundles
      in if list_ex (\<lambda>group. length (getBundlesInBundleGroup G group) \<ge> maxParallelRequests)
              bundleGroups
         then Inr G
         else case sourceBundles of
           [] \<Rightarrow> Inl TypeError
         | firstBundle # rest \<Rightarrow>
             (case createBundle h G (sharedBundleOpts h sourceBundles firstBundle) of
                (G1, sharedBundle) \<Rightarrow>
                  (let G2 = fold (moveAsset h sourceBundles sharedBundle) assets G1;
                       G3 = fold (\<lambda>bundleGroup G. addBundleToBundleGroup G sharedBundle bundleGroup)
                                 bundleGroups G2
                   in Inr (deduplicateBundle h G3 sharedBundle))))"

fun extractAll :: "host \<Rightarrow> candidate list \<Rightarrow> bundle_graph \<Rightarrow> error + bundle_graph" where
  "extractAll h [] G = Inr G"
| "extractAll h (cand # cands) G =
     (case extractCandidate h cand G of
        Inl e \<Rightarrow> Inl e
      | Inr G1 \<Rightarrow> extractAll h cands G1)"

definition extractSharedBundles :: "host \<Rightarrow> bundle_graph \<Rightarrow> error + bundle_graph" where
  "extractSharedBundles h G = extractAll h (sortedCandidates (collectCandidates h G)) G"

subsection \<open>Fourth pass: async dependencies that resolve inside the bundle\<close>

definition internalizeIn ::
  "host \<Rightarrow> dependency \<Rightarrow> asset \<Rightarrow> bundle_rec \<Rightarrow> bundle_graph \<Rightarrow> bundle_graph" where
  "internalizeIn h dependency resolution bundle G =
     (if hasAsset G bundle resolution \<or> isAssetInAncestorBundles h G bundle resolution
      then internalizeAsyncDependency G bundle dependency
      else G)"

definition internalizeNode ::
  "host \<Rightarrow> node \<Rightarrow> bundle_graph \<times> bundle_group list \<Rightarrow> error + (bundle_graph \<times> bundle_group list)" where
  "internalizeNode h n st =
     (case st of (G, asyncBundleGroups) \<Rightarrow>
        (case n of
           AssetNode x \<Rightarrow> Inr st
         | DependencyNode dependency \<Rightarrow>
             if d_isEntry dependency \<or> \<not> d_isAsync dependency then Inr st
             else (case getDependencyResolution h dependency of
                     None \<Rightarrow> Inr st
                   | Some resolution \<Rightarrow>
                       (case resolveExternalDependency h G dependency of
                          Some (BundleGroupResolution bundleGroup) \<Rightarrow>
                            Inr (fold (internalizeIn h dependency resolution)
                                      (findBundlesWithDependency h G dependency) G,
                                 setAdd bundleGroup asyncBundleGroups)
                        | Some (AssetResolution x) \<Rightarrow> Inl ExternalResolutionMismatch
                        | None \<Rightarrow> Inl ExternalResolutionMismatch))))"

fun internalizeNodes ::
  "host \<Rightarrow> node list \<Rightarrow> bundle_graph \<times> bundle_group list \<Rightarrow> error + (bundle_graph \<times> bundle_group list)" where
  "internalizeNodes h [] st = Inr st"
| "internalizeNodes h (n # ns) st =
     (case internalizeNode h n st of
        Inl e \<Rightarrow> Inl e
      | Inr st1 \<Rightarrow> internalizeNodes h ns st1)"

definition pruneBundleGroup :: "host \<Rightarrow> bundle_group \<Rightarrow> bundle_graph \<Rightarrow> bundle_graph" where
  "pruneBundleGroup h bundleGroup G =
     (if length (getParentBundlesOfBundleGroup h G bundleGroup) = 0
      then removeBundleGroup G bundleGroup
      else G)"

definition internalizeAsync :: "host \<Rightarrow> bundle_graph \<Rightarrow> error + bundle_graph" where
  "internalizeAsync h G =
     (case internalizeNodes h (preorderAll (graphNodes h G)) (G, []) of
        Inl e \<Rightarrow> Inl e
      | Inr (G1, asyncBundleGroups) \<Rightarrow> Inr (fold (pruneBundleGroup h) asyncBundleGroups G1))"

text \<open>The whole \<^verbatim>\<open>bundle\<close> method of the optimizing bundler.\<close>

definition optimizeBundle :: "host \<Rightarrow> bundle_graph \<Rightarrow> error + bundle_graph" where
  "optimizeBundle h G =
     (case extractSharedBundles h (deduplicateAll h (hoistAll h G)) of
        Inl e \<Rightarrow> Inl e
      | Inr G1 \<Rightarrow> internalizeAsync h G1)"


section \<open>DefaultBundler.js\<close>

text \<open>The context carried down the traversal. \<open>bundleByType\<close> is a \<^verbatim>\<open>Map\<close> object that
  the contexts below share and that later visits update, and the sibling lists of
  \<open>siblingBundlesByAsset\<close> are arrays that several assets may share: both live in a store
  and are held by reference.\<close>

record bundler_context =
  ctx_bundleGroup :: "bundle_group option"
  ctx_bundleByType :: "nat option"
  ctx_bundleGroupDependency :: "dependency option"
  ctx_parentNode :: node

record primary_state =
  ps_graph :: bundle_graph
  ps_bundleRoots :: "(bundle_rec \<times> asset list) list"
  ps_siblingBundlesByAsset :: "(string \<times> nat) list"
  ps_arrays :: "nat \<Rightarrow> bundle_rec list"
  ps_nextArray :: nat
  ps_maps :: "nat \<Rightarrow> (string \<times> bundle_rec) list"
  ps_nextMap :: nat

text \<open>The condition of line 34: the dependency is an entry or async and resolved, or
  its resolution is isolated or inline.\<close>

definition opensBundleGroup :: "dependency \<Rightarrow> asset option \<Rightarrow> bool" where
  "opensBundleGroup dependency resolution =
     ((d_isEntry dependency \<and> resolution \<noteq> None) \<or>
      (d_isAsync dependency \<and> resolution \<noteq> None) \<or>
      (case resolution of None \<Rightarrow> False | Some r \<Rightarrow> a_isIsolated r) \<or>
      (case resolution of None \<Rightarrow> False | Some r \<Rightarrow> a_isInline r))"

text \<open>\<^verbatim>\<open>dependency.target ?? context?.bundleGroup?.target\<close>.\<close>

definition groupTarget :: "dependency \<Rightarrow> bundler_context option \<Rightarrow> target option" where
  "groupTarget dependency ctx =
     (case d_target dependency of
        Some t \<Rightarrow> Some t
      | None \<Rightarrow> (case ctx of
                   None \<Rightarrow> None
                 | Some c \<Rightarrow> (case ctx_bundleGroup c of
                                None \<Rightarrow> None
                              | Some g \<Rightarrow> Some (bg_target g))))"

definition entryBundleOpts :: "dependency \<Rightarrow> bundle_group \<Rightarrow> asset \<Rightarrow> bundle_opts" where
  "entryBundleOpts dependency bundleGroup asset =
     \<lparr>o_entryAsset = Some asset,
      o_uniqueKey = None,
      o_type = None,
      o_env = None,
      o_target = bg_target bundleGroup,
      o_isEntry = (if a_isIsolated asset then False else d_isEntry dependency),
      o_isInline = a_isInline asset,
      o_isSplittable = False\<rparr>"

text \<open>The loop of lines 47 to 58, one bundle for an asset of the dependency.\<close>

definition openBundle ::
  "host \<Rightarrow> dependency \<Rightarrow> bundle_group \<Rightarrow> nat \<Rightarrow> asset \<Rightarrow> primary_state \<Rightarrow> primary_state" where
  "openBundle h dependency bundleGroup bundleByType asset s =
     (case createBundle h (ps_graph s) (entryBundleOpts dependency bundleGroup asset) of
        (G1, bundle) \<Rightarrow>
          s\<lparr>ps_graph := addBundleToBundleGroup G1 bundle bundleGroup,
            ps_maps := (ps_maps s)
              (bundleByType := AList.update (b_type bundle) bundle (ps_maps s bundleByType)),
            ps_bundleRoots := AList.update bundle [asset] (ps_bundleRoots s),
            ps_siblingBundlesByAsset :=
              AList.update (a_id asset) (ps_nextArray s) (ps_siblingBundlesByAsset s),
            ps_arrays := (ps_arrays s)(ps_nextArray s := []),
            ps_nextArray := Suc (ps_nextArray s)\<rparr>)"

definition openBundleGroup ::
  "host \<Rightarrow> node \<Rightarrow> dependency \<Rightarrow> bundler_context option \<Rightarrow> primary_state \<Rightarrow> error + (primary_state \<times> bundler_context)" where
  "openBundleGroup h n dependency ctx s =
     (case groupTarget dependency ctx of
        None \<Rightarrow> Inl MissingTarget
      | Some t \<Rightarrow>
          (case createBundleGroup (ps_graph s) dependency t of
             (G1, bundleGroup) \<Rightarrow>
               (let bundleByType = ps_nextMap s;
                    s1 = s\<lparr>ps_graph := G1,
                           ps_maps := (ps_maps s)(bundleByType := []),
                           ps_nextMap := Suc bundleByType\<rparr>;
                    s2 = fold (openBundle h dependency bundleGroup bundleByType)
                              (getDependencyAssets h dependency) s1
                in Inr (s2, \<lparr>ctx_bundleGroup = Some bundleGroup,
                              ctx_bundleByType = Some bundleByType,
                              ctx_bundleGroupDependency = Some dependency,
                              ctx_parentNode = n\<rparr>))))"

definition siblingBundleOpts :: "dependency \<Rightarrow> bundle_group \<Rightarrow> asset \<Rightarrow> bundle_opts" where
  "siblingBundleOpts bundleGroupDependency bundleGroup asset =
     \<lparr>o_entryAsset = Some asset,
      o_uniqueKey = None,
      o_type = None,
      o_env = None,
      o_target = bg_target bundleGroup,
      o_isEntry = d_isEntry bundleGroupDependency,
      o_isInline = a_isInline asset,
      o_isSplittable = False\<rparr>"

text \<open>\<^verbatim>\<open>if (!siblings) siblingBundlesByAsset.set(asset.id, [])\<close>, with a new array.\<close>

definition startSiblings :: "asset \<Rightarrow> nat option \<Rightarrow> primary_state \<Rightarrow> primary_state" where
  "startSiblings asset siblings s =
     (case siblings of
        Some r \<Rightarrow> s
      | None \<Rightarrow>
          s\<lparr>ps_siblingBundlesByAsset :=
              AList.update (a_id asset) (ps_nextArray s) (ps_siblingBundlesByAsset s),
            ps_arrays := (ps_arrays s)(ps_nextArray s := []),
            ps_nextArray := Suc (ps_nextArray s)\<rparr>)"

text \<open>The loop of lines 79 to 129, for one asset of a dependency inside a group.\<close>

definition placeAsset ::
  "host \<Rightarrow> dependency \<Rightarrow> asset \<Rightarrow> bundle_group \<Rightarrow> dependency \<Rightarrow> nat \<Rightarrow> nat \<Rightarrow> bool \<Rightarrow>
   asset \<Rightarrow> primary_state \<Rightarrow> error + primary_state" where
  "placeAsset h dependency parentAsset bundleGroup bundleGroupDependency bundleByType
     siblingBundles allSameType asset s =
     (let siblings = map_of (ps_siblingBundlesByAsset s) (a_id asset)
      in if a_type parentAsset = a_type asset
         then (case siblings of
                 Some r \<Rightarrow>
                   if allSameType
                   then Inr (s\<lparr>ps_graph :=
                               fold (\<lambda>bundle G. addBundleToBundleGroup G bundle bundleGroup)
                                    (ps_arrays s r) (ps_graph s)\<rparr>)
                   else Inr s
               | None \<Rightarrow>
                   if allSameType
                   then Inr (s\<lparr>ps_siblingBundlesByAsset :=
                               AList.update (a_id asset) siblingBundles
                                 (ps_siblingBundlesByAsset s)\<rparr>)
                   else Inr (startSiblings asset None s))
         else (case map_of (ps_maps s bundleByType) (a_type asset) of
                 Some existingBundle \<Rightarrow>
                   (case map_of (ps_bundleRoots s) existingBundle of
                      None \<Rightarrow> Inl NullThrows
                    | Some roots \<Rightarrow>
                        Inr (startSiblings asset siblings
                          (s\<lparr>ps_bundleRoots :=
                               AList.update existingBundle (roots @ [asset]) (ps_bundleRoots s),
                             ps_graph := createAssetReference (ps_graph s) dependency asset\<rparr>)))
               | None \<Rightarrow>
                   (case createBundle h (ps_graph s)
                           (siblingBundleOpts bundleGroupDependency bundleGroup asset) of
                      (G1, bundle) \<Rightarrow>
                        Inr (startSiblings asset siblings
                          (s\<lparr>ps_maps := (ps_maps s)
                               (bundleByType :=
                                  AList.update (b_type bundle) bundle (ps_maps s bundleByType)),
                             ps_arrays := (ps_arrays s)
                               (siblingBundles := ps_arrays s siblingBundles @ [bundle]),
                             ps_bundleRoots := AList.update bundle [asset] (ps_bundleRoots s),
                             ps_graph :=
                               addBundleToBundleGroup
                                 (createAssetReference G1 dependency asset)
                                 bundle bundleGroup\<rparr>)))))"

fun placeAssets ::
  "(asset \<Rightarrow> primary_state \<Rightarrow> error + primary_state) \<Rightarrow> asset list \<Rightarrow> primary_state \<Rightarrow>
   error + primary_state" where
  "placeAssets f [] s = Inr s"
| "placeAssets f (asset # assets) s =
     (case f asset s of
        Inl e \<Rightarrow> Inl e
      | Inr s1 \<Rightarrow> placeAssets f assets s1)"

text \<open>Lines 68 to 134: the dependency stays inside the enclosing bundle group.\<close>

definition continueBundleGroup ::
  "host \<Rightarrow> node \<Rightarrow> dependency \<Rightarrow> bundler_context option \<Rightarrow> primary_state \<Rightarrow> error + (primary_state \<times> bundler_context)" where
  "continueBundleGroup h n dependency ctx s =
     (case ctx of
        None \<Rightarrow> Inl MissingContext
      | Some c \<Rightarrow>
          (case ctx_parentNode c of
             DependencyNode x \<Rightarrow> Inl InvariantViolation
           | AssetNode parentAsset \<Rightarrow>
               (case ctx_bundleGroup c of
                  None \<Rightarrow> Inl MissingContext
                | Some bundleGroup \<Rightarrow>
                    (case ctx_bundleGroupDependency c of
                       None \<Rightarrow> Inl MissingContext
                     | Some bundleGroupDependency \<Rightarrow>
                         (case ctx_bundleByType c of
                            None \<Rightarrow> Inl MissingContext
                          | Some bundleByType \<Rightarrow>
                              (case map_of (ps_siblingBundlesByAsset s) (a_id parentAsset) of
                                 None \<Rightarrow> Inl NullThrows
                               | Some siblingBundles \<Rightarrow>
                                   (let assets = getDependencyAssets h dependency;
                                        allSameType =
                                          list_all (\<lambda>a. a_type a = a_type parentAsset) assets
                                    in case placeAssets
                                              (placeAsset h dependency parentAsset bundleGroup
                                                 bundleGroupDependency bundleByType siblingBundles
                                                 allSameType)
                                              assets s of
                                         Inl e \<Rightarrow> Inl e
                                       | Inr s1 \<Rightarrow> Inr (s1, c\<lparr>ctx_parentNode := n\<rparr>))))))))"

text \<open>The \<^verbatim>\<open>enter\<close> visitor (lines 19 to 135).\<close>

definition enter ::
  "host \<Rightarrow> node \<Rightarrow> bundler_context option \<Rightarrow> primary_state \<Rightarrow> error + (primary_state \<times> bundler_context)" where
  "enter h n ctx s =
     (case n of
        AssetNode x \<Rightarrow>
          Inr (s, \<lparr>ctx_bundleGroup = (case ctx of None \<Rightarrow> None | Some c \<Rightarrow> ctx_bundleGroup c),
                   ctx_bundleByType = (case ctx of None \<Rightarrow> None | Some c \<Rightarrow> ctx_bundleByType c),
                   ctx_bundleGroupDependency =
                     (case ctx of None \<Rightarrow> None | Some c \<Rightarrow> ctx_bundleGroupDependency c),
                   ctx_parentNode = n\<rparr>)
      | DependencyNode dependency \<Rightarrow>
          if opensBundleGroup dependency (getDependencyResolution h dependency)
          then openBundleGroup h n dependency ctx s
          else continueBundleGroup h n dependency ctx s)"

text \<open>Modelled from the spec: \<^verbatim>\<open>traverse({enter})\<close>, the traversal of the graph with the
  context that \<^verbatim>\<open>enter\<close> returns handed down to the children of the node; an exception
  ends the traversal.\<close>

fun traverseEnter :: "host \<Rightarrow> tree \<Rightarrow> bundler_context option \<Rightarrow> primary_state \<Rightarrow> error + primary_state"
  and traverseEnterList ::
    "host \<Rightarrow> tree list \<Rightarrow> bundler_context option \<Rightarrow> primary_state \<Rightarrow> error + primary_state" where
  "traverseEnter h (Tree n ts) ctx s =
     (case enter h n ctx s of
        Inl e \<Rightarrow> Inl e
      | Inr (s1, c) \<Rightarrow> traverseEnterList h ts (Some c) s1)"
| "traverseEnterList h [] ctx s = Inr s"
| "traverseEnterList h (t # ts) ctx s =
     (case traverseEnter h t ctx s of
        Inl e \<Rightarrow> Inl e
      | Inr s1 \<Rightarrow> traverseEnterList h ts ctx s1)"

definition attachRoots :: "host \<Rightarrow> bundle_rec \<times> asset list \<Rightarrow> bundle_graph \<Rightarrow> bundle_graph" where
  "attachRoots h entry G =
     (case entry of (bundle, rootAssets) \<Rightarrow>
        fold (\<lambda>asset G1. addAssetGraphToBundle h G1 asset bundle) rootAssets G)"

definition initialState :: "bundle_graph \<Rightarrow> primary_state" where
  "initialState G =
     \<lparr>ps_graph = G, ps_bundleRoots = [], ps_siblingBundlesByAsset = [],
      ps_arrays = (\<lambda>r. []), ps_nextArray = 0, ps_maps = (\<lambda>r. []), ps_nextMap = 0\<rparr>"

text \<open>The whole \<^verbatim>\<open>bundle\<close> method of the default bundler.\<close>

definition primaryBundle :: "host \<Rightarrow> bundle_graph \<Rightarrow> error + bundle_graph" where
  "primaryBundle h G =
     (case traverseEnterList h (graphNodes h G) None (initialState G) of
        Inl e \<Rightarrow> Inl e
      | Inr s \<Rightarrow> Inr (fold (attachRoots h) (ps_bundleRoots s) (ps_graph s)))"

section \<open>The wrap-marking bundler\<close>

text \<open>\<open>meta\<close> holds \<^verbatim>\<open>asset.meta.shouldWrap\<close> of every asset. The context of the traversal
  is \<^verbatim>\<open>undefined\<close> (\<open>None\<close>) or a boolean.\<close>

definition truthy :: "bool option \<Rightarrow> bool" where
  "truthy c = (c = Some True)"

definition wrapNode ::
  "host \<Rightarrow> bundle_rec \<Rightarrow> node \<Rightarrow> bool option \<Rightarrow> (asset \<Rightarrow> bool) \<Rightarrow> (asset \<Rightarrow> bool) \<times> bool option" where
  "wrapNode h bundle n shouldWrap meta =
     (case n of
        AssetNode x \<Rightarrow> (meta, None)
      | DependencyNode dependency \<Rightarrow>
          if truthy shouldWrap \<or> d_shouldWrap dependency
          then (case getDependencyResolutionIn h dependency bundle of
                  Some resolved \<Rightarrow> (meta(resolved := True), Some True)
                | None \<Rightarrow> (meta, Some True))
          else (meta, None))"

text \<open>Modelled from the spec: \<^verbatim>\<open>bundle.traverse(visitor)\<close> with a context; a visitor that
  returns \<^verbatim>\<open>undefined\<close> leaves the context of its node to the children.\<close>

fun traverseWrap ::
  "host \<Rightarrow> bundle_rec \<Rightarrow> tree \<Rightarrow> bool option \<Rightarrow> (asset \<Rightarrow> bool) \<Rightarrow> (asset \<Rightarrow> bool)"
  and traverseWrapList ::
  "host \<Rightarrow> bundle_rec \<Rightarrow> tree list \<Rightarrow> bool option \<Rightarrow> (asset \<Rightarrow> bool) \<Rightarrow> (asset \<Rightarrow> bool)" where
  "traverseWrap h bundle (Tree n ts) ctx meta =
     (case wrapNode h bundle n ctx meta of
        (meta1, None) \<Rightarrow> traverseWrapList h bundle ts ctx meta1
      | (meta1, Some c) \<Rightarrow> traverseWrapList h bundle ts (Some c) meta1)"
| "traverseWrapList h bundle [] ctx meta = meta"
| "traverseWrapList h bundle (t # ts) ctx meta =
     traverseWrapList h bundle ts ctx (traverseWrap h bundle t ctx meta)"




section \<open>Notions used by the properties\<close>

text \<open>What every entry of the candidate map satisfies: its source bundles are distinct,
  more than \<open>minBundles\<close>, each of them one of the filtered containing bundles of an asset
  of the candidate, and its size is the sum of the total sizes of its assets.\<close>

definition goodCandidate :: "host \<Rightarrow> bundle_graph \<Rightarrow> candidate \<Rightarrow> bool" where
  "goodCandidate h G c =
     (distinct (c_sourceBundles c) \<and> length (c_sourceBundles c) > minBundles \<and>
      list_all (\<lambda>b. list_ex (\<lambda>a. b \<in> set (containingBundlesOf G a)) (c_assets c))
               (c_sourceBundles c) \<and>
      c_size c = sum_list (map (getTotalSize h) (c_assets c)))"

text \<open>Following the words of the claim, not the code: the dependencies of a traversal
  forest for which the flag inherited from the dependencies above them is set or whose own
  \<^verbatim>\<open>meta.shouldWrap\<close> is set; below such a dependency the inherited flag is set.\<close>

fun wrappedDependencies :: "bool \<Rightarrow> tree \<Rightarrow> dependency list"
  and wrappedDependenciesList :: "bool \<Rightarrow> tree list \<Rightarrow> dependency list" where
  "wrappedDependencies inherited (Tree (AssetNode a) ts) = wrappedDependenciesList inherited ts"
| "wrappedDependencies inherited (Tree (DependencyNode d) ts) =
     (if inherited \<or> d_shouldWrap d then d # wrappedDependenciesList True ts
      else wrappedDependenciesList False ts)"
| "wrappedDependenciesList inherited [] = []"
| "wrappedDependenciesList inherited (t # ts) =
     wrappedDependencies inherited t @ wrappedDependenciesList inherited ts"

text \<open>The dependencies among the nodes of a forest.\<close>

fun dependenciesOf :: "node list \<Rightarrow> dependency list" where
  "dependenciesOf [] = []"
| "dependenciesOf (AssetNode a # ns) = dependenciesOf ns"
| "dependenciesOf (DependencyNode d # ns) = d # dependenciesOf ns"

text \<open>Modelled from the spec: the fixed depth-first order of the traversals of the host
  over a graph given by the children of each node. A node is visited once; its children
  are taken in their declared order, and a child that was visited before is passed over.
  The result is the forest of the visits with the nodes visited; the fuel bounds the
  depth of the walk.\<close>

fun dfsTree :: "nat \<Rightarrow> (node \<Rightarrow> node list) \<Rightarrow> node \<Rightarrow> node list \<Rightarrow> (tree \<times> node list) option"
  and dfsForest ::
    "nat \<Rightarrow> (node \<Rightarrow> node list) \<Rightarrow> node list \<Rightarrow> node list \<Rightarrow> (tree list \<times> node list) option" where
  "dfsTree 0 children n visited = None"
| "dfsTree (Suc fuel) children n visited =
     (case dfsForest fuel children (children n) (n # visited) of
        None \<Rightarrow> None
      | Some (ts, visited1) \<Rightarrow> Some (Tree n ts, visited1))"
| "dfsForest fuel children [] visited = Some ([], visited)"
| "dfsForest fuel children (c # cs) visited =
     (if c \<in> set visited then dfsForest fuel children cs visited
      else case dfsTree fuel children c visited of
             None \<Rightarrow> None
           | Some (t, visited1) \<Rightarrow>
               (case dfsForest fuel children cs visited1 of
                  None \<Rightarrow> None
                | Some (ts, visited2) \<Rightarrow> Some (t # ts, visited2)))"


section \<open>Scenarios\<close>

text \<open>Concrete graphs and hosts on which the properties below are evaluated.\<close>

definition envWeb :: environment where
  "envWeb = \<lparr>env_context = ''browser'', env_isolated = False\<rparr>"

definition envWorker :: environment where
  "envWorker = \<lparr>env_context = ''web-worker'', env_isolated = True\<rparr>"

definition jsAsset :: "string \<Rightarrow> asset" where
  "jsAsset name = \<lparr>a_id = name, a_type = ''js'', a_env = envWeb, a_isIsolated = False,
                    a_isInline = False, a_isSplittable = True\<rparr>"

definition jsBundle :: "string \<Rightarrow> asset option \<Rightarrow> bundle_rec" where
  "jsBundle name entry = \<lparr>b_id = name, b_type = ''js'', b_env = envWeb, b_target = ''dist'',
                            b_isEntry = False, b_isInline = False, b_isSplittable = True,
                            b_entryAsset = entry, b_uniqueKey = None\<rparr>"

definition importOf :: "string \<Rightarrow> dependency" where
  "importOf name = \<lparr>d_id = name, d_isEntry = False, d_isAsync = True, d_target = None,
                     d_shouldWrap = False\<rparr>"

definition groupOf :: "string \<Rightarrow> bundle_group" where
  "groupOf name = \<lparr>bg_dependency = importOf name, bg_target = ''dist''\<rparr>"

definition plainHost :: host where
  "plainHost = \<lparr>getDependencyAssets = (\<lambda>d. []),
     getDependencyResolution = (\<lambda>d. None),
     getDependencyResolutionIn = (\<lambda>d b. None),
     resolveExternalDependency = (\<lambda>G d. None),
     assetGraph = (\<lambda>a. []),
     getTotalSize = (\<lambda>a. 0),
     isAssetInAncestorBundles = (\<lambda>G b a. False),
     findBundlesWithDependency = (\<lambda>G d. []),
     getParentBundlesOfBundleGroup = (\<lambda>G g. []),
     bundlesEnterOrder = (\<lambda>G. bundles G),
     bundlesExitOrder = (\<lambda>G. rev (bundles G)),
     bundleNodes = (\<lambda>G b. []),
     graphNodes = (\<lambda>G. []),
     graphContents = (\<lambda>G. []),
     bundleIdOf = (\<lambda>k. k),
     md5FromString = (\<lambda>k. k)\<rparr>"

definition hoistGraph :: bundle_graph where
  "hoistGraph =
     \<lparr>bundles = [jsBundle ''A'' (Some (jsAsset ''a'')), jsBundle ''S'' None,
                 jsBundle ''C'' (Some (jsAsset ''c'')), jsBundle ''P'' None, jsBundle ''Q'' None,
                 jsBundle ''R'' None],
      bundleGroups = [groupOf ''a'', groupOf ''c''],
      groupBundles = (\<lambda>g. if g = groupOf ''a''
                            then [jsBundle ''A'' (Some (jsAsset ''a'')), jsBundle ''S'' None]
                            else if g = groupOf ''c''
                            then [jsBundle ''C'' (Some (jsAsset ''c'')), jsBundle ''P'' None,
                                  jsBundle ''Q'' None, jsBundle ''R'' None]
                            else []),
      bundleAssets = (\<lambda>b. if b = jsBundle ''A'' (Some (jsAsset ''a'')) then [jsAsset ''a'']
                            else if b = jsBundle ''C'' (Some (jsAsset ''c''))
                            then [jsAsset ''c'', jsAsset ''a'']
                            else []),
      assetReferences = [],
      internalized = []\<rparr>"


definition workerBundle :: bundle_rec where
  "workerBundle = (jsBundle ''W'' (Some (jsAsset ''w'')))\<lparr>b_env := envWorker\<rparr>"

definition pageBundle :: bundle_rec where
  "pageBundle = jsBundle ''P'' (Some (jsAsset ''p''))"

definition dedupHost :: host where
  "dedupHost = plainHost\<lparr>getDependencyAssets := (\<lambda>d. [jsAsset ''x'']),
     isAssetInAncestorBundles := (\<lambda>G b a. True),
     bundleNodes := (\<lambda>G b. [Tree (DependencyNode (importOf ''x'')) [Tree (AssetNode (jsAsset ''x'')) []]])\<rparr>"

definition dedupGraph :: bundle_graph where
  "dedupGraph =
     \<lparr>bundles = [workerBundle, pageBundle],
      bundleGroups = [groupOf ''w'', groupOf ''p''],
      groupBundles = (\<lambda>g. if g = groupOf ''w'' then [workerBundle]
                            else if g = groupOf ''p'' then [pageBundle] else []),
      bundleAssets = (\<lambda>b. if b = workerBundle then [jsAsset ''w'', jsAsset ''x'']
                            else if b = pageBundle then [jsAsset ''p'', jsAsset ''x''] else []),
      assetReferences = [],
      internalized = []\<rparr>"

definition fullGraph :: bundle_graph where
  "fullGraph =
     \<lparr>bundles = [jsBundle ''X'' (Some (jsAsset ''x'')), jsBundle ''Y'' (Some (jsAsset ''y'')),
                 jsBundle ''P'' None, jsBundle ''Q'' None, jsBundle ''R'' None, jsBundle ''S'' None],
      bundleGroups = [groupOf ''x'', groupOf ''y''],
      groupBundles = (\<lambda>g. if g = groupOf ''x''
                            then [jsBundle ''X'' (Some (jsAsset ''x'')), jsBundle ''P'' None,
                                  jsBundle ''Q'' None, jsBundle ''R'' None, jsBundle ''S'' None]
                            else if g = groupOf ''y''
                            then [jsBundle ''Y'' (Some (jsAsset ''y''))]
                            else []),
      bundleAssets = (\<lambda>b. if b = jsBundle ''X'' (Some (jsAsset ''x''))
                            then [jsAsset ''x'', jsAsset ''shared'']
                            else if b = jsBundle ''Y'' (Some (jsAsset ''y''))
                            then [jsAsset ''y'', jsAsset ''shared'']
                            else []),
      assetReferences = [],
      internalized = []\<rparr>"

definition sharedCandidate :: candidate where
  "sharedCandidate =
     \<lparr>c_assets = [jsAsset ''shared''],
      c_sourceBundles = [jsBundle ''X'' (Some (jsAsset ''x'')), jsBundle ''Y'' (Some (jsAsset ''y''))],
      c_size = 100000\<rparr>"

definition asyncGraph :: bundle_graph where
  "asyncGraph =
     \<lparr>bundles = [jsBundle ''A'' (Some (jsAsset ''a'')), jsBundle ''X'' (Some (jsAsset ''x''))],
      bundleGroups = [groupOf ''a'', groupOf ''x''],
      groupBundles = (\<lambda>g. if g = groupOf ''a'' then [jsBundle ''A'' (Some (jsAsset ''a''))]
                            else if g = groupOf ''x'' then [jsBundle ''X'' (Some (jsAsset ''x''))]
                            else []),
      bundleAssets = (\<lambda>b. if b = jsBundle ''A'' (Some (jsAsset ''a''))
                            then [jsAsset ''a'', jsAsset ''x'']
                            else if b = jsBundle ''X'' (Some (jsAsset ''x''))
                            then [jsAsset ''x'']
                            else []),
      assetReferences = [],
      internalized = []\<rparr>"

definition asyncHost :: host where
  "asyncHost = plainHost\<lparr>getDependencyResolution := (\<lambda>d. Some (jsAsset ''x'')),
     resolveExternalDependency := (\<lambda>G d. Some (BundleGroupResolution (groupOf ''x''))),
     findBundlesWithDependency := (\<lambda>G d. [jsBundle ''A'' (Some (jsAsset ''a''))])\<rparr>"

definition mismatchHost :: host where
  "mismatchHost = asyncHost\<lparr>resolveExternalDependency :=
     (\<lambda>G d. Some (AssetResolution (jsAsset ''x'')))\<rparr>"

definition tieGraph :: bundle_graph where
  "tieGraph =
     \<lparr>bundles = [jsBundle ''C'' None, jsBundle ''D'' None, jsBundle ''A'' None, jsBundle ''B'' None],
      bundleGroups = [groupOf ''c'', groupOf ''d'', groupOf ''a'', groupOf ''b''],
      groupBundles = (\<lambda>g. if g = groupOf ''c'' then [jsBundle ''C'' None]
                            else if g = groupOf ''d'' then [jsBundle ''D'' None]
                            else if g = groupOf ''a'' then [jsBundle ''A'' None]
                            else if g = groupOf ''b'' then [jsBundle ''B'' None]
                            else []),
      bundleAssets = (\<lambda>b. if b = jsBundle ''C'' None \<or> b = jsBundle ''D'' None
                            then [jsAsset ''y'']
                            else if b = jsBundle ''A'' None \<or> b = jsBundle ''B'' None
                            then [jsAsset ''z'']
                            else []),
      assetReferences = [],
      internalized = []\<rparr>"

definition tieHost :: host where
  "tieHost = plainHost\<lparr>getTotalSize := (\<lambda>a. 40000),
     graphContents := (\<lambda>G. [Tree (AssetNode (jsAsset ''y'')) [], Tree (AssetNode (jsAsset ''z'')) []])\<rparr>"

definition extractGraph :: bundle_graph where
  "extractGraph =
     \<lparr>bundles = [jsBundle ''E1'' (Some (jsAsset ''e1'')), jsBundle ''E2'' (Some (jsAsset ''e2''))],
      bundleGroups = [groupOf ''e1'', groupOf ''e2''],
      groupBundles = (\<lambda>g. if g = groupOf ''e1'' then [jsBundle ''E1'' (Some (jsAsset ''e1''))]
                            else if g = groupOf ''e2'' then [jsBundle ''E2'' (Some (jsAsset ''e2''))]
                            else []),
      bundleAssets = (\<lambda>b. if b = jsBundle ''E1'' (Some (jsAsset ''e1''))
                            then [jsAsset ''e1'', jsAsset ''big'']
                            else if b = jsBundle ''E2'' (Some (jsAsset ''e2''))
                            then [jsAsset ''e2'', jsAsset ''big'']
                            else []),
      assetReferences = [],
      internalized = []\<rparr>"

definition extractHost :: host where
  "extractHost = plainHost\<lparr>getTotalSize := (\<lambda>a. if a = jsAsset ''big'' then 60000 else 100),
     graphContents := (\<lambda>G.
       [Tree (AssetNode (jsAsset ''e1''))
          [Tree (DependencyNode (importOf ''big'')) [Tree (AssetNode (jsAsset ''big'')) []]],
        Tree (AssetNode (jsAsset ''e2'')) [Tree (DependencyNode (importOf ''big'')) []]])\<rparr>"

definition bigBundle :: bundle_rec where
  "bigBundle = \<lparr>b_id = ''E1:E2'', b_type = ''js'', b_env = envWeb, b_target = ''dist'',
                b_isEntry = False, b_isInline = False, b_isSplittable = True,
                b_entryAsset = None, b_uniqueKey = Some ''E1:E2''\<rparr>"

definition asyncTraversalHost :: host where
  "asyncTraversalHost = asyncHost\<lparr>graphNodes := (\<lambda>G.
     [Tree (AssetNode (jsAsset ''a'')) [Tree (DependencyNode (importOf ''x''))
        [Tree (AssetNode (jsAsset ''x'')) []]]])\<rparr>"

definition emptyGraph :: bundle_graph where
  "emptyGraph = \<lparr>bundles = [], bundleGroups = [], groupBundles = (\<lambda>g. []),
                  bundleAssets = (\<lambda>b. []), assetReferences = [], internalized = []\<rparr>"

definition entryDep :: dependency where
  "entryDep = \<lparr>d_id = ''entry'', d_isEntry = True, d_isAsync = False, d_target = Some ''dist'',
                d_shouldWrap = False\<rparr>"

definition primaryHost :: host where
  "primaryHost = plainHost\<lparr>
     getDependencyAssets := (\<lambda>d. if d = entryDep then [jsAsset ''index'']
                                  else if d = importOf ''lazy'' then [jsAsset ''lazy''] else []),
     getDependencyResolution := (\<lambda>d. if d = entryDep then Some (jsAsset ''index'')
                                      else if d = importOf ''lazy'' then Some (jsAsset ''lazy'')
                                      else None),
     graphNodes := (\<lambda>G.
       [Tree (DependencyNode entryDep)
          [Tree (AssetNode (jsAsset ''index''))
             [Tree (DependencyNode (importOf ''lazy'')) [Tree (AssetNode (jsAsset ''lazy'')) []],
              Tree (DependencyNode (importOf ''missing'')) []]]])\<rparr>"

definition entryGroup :: bundle_group where
  "entryGroup = \<lparr>bg_dependency = entryDep, bg_target = ''dist''\<rparr>"

definition insideEntry :: bundler_context where
  "insideEntry = \<lparr>ctx_bundleGroup = Some entryGroup, ctx_bundleByType = Some 0,
                   ctx_bundleGroupDependency = Some entryDep,
                   ctx_parentNode = AssetNode (jsAsset ''index'')\<rparr>"

definition afterEntry :: primary_state where
  "afterEntry = (initialState emptyGraph)\<lparr>ps_siblingBundlesByAsset := [(''index'', 0)],
                   ps_nextArray := 1, ps_nextMap := 1\<rparr>"

definition wrapDep :: "string \<Rightarrow> bool \<Rightarrow> dependency" where
  "wrapDep name w = \<lparr>d_id = name, d_isEntry = False, d_isAsync = False, d_target = None,
                      d_shouldWrap = w\<rparr>"

definition wrapGraph :: bundle_graph where
  "wrapGraph = emptyGraph\<lparr>bundles := [jsBundle ''A'' (Some (jsAsset ''a''))]\<rparr>"

definition wrapHost :: host where
  "wrapHost = plainHost\<lparr>
     getDependencyResolutionIn := (\<lambda>d b.
        if d = wrapDep ''a-b'' True then Some (jsAsset ''b'')
        else if d = wrapDep ''b-c'' False then Some (jsAsset ''c'')
        else if d = wrapDep ''a-d'' False then Some (jsAsset ''d'')
        else None),
     bundleNodes := (\<lambda>G b.
       [Tree (AssetNode (jsAsset ''a''))
          [Tree (DependencyNode (wrapDep ''a-b'' True))
             [Tree (AssetNode (jsAsset ''b''))
                [Tree (DependencyNode (wrapDep ''b-c'' False)) [Tree (AssetNode (jsAsset ''c'')) []]]],
           Tree (DependencyNode (wrapDep ''a-d'' False)) [Tree (AssetNode (jsAsset ''d'')) []]]])\<rparr>"

definition unresolvedTree :: "tree list" where
  "unresolvedTree =
     [Tree (AssetNode (jsAsset ''x''))
        [Tree (DependencyNode (wrapDep ''b-c'' False)) [Tree (AssetNode (jsAsset ''c'')) []]]]"

definition blockedGraph :: bundle_graph where
  "blockedGraph =
     hoistGraph\<lparr>bundles := bundles hoistGraph @ [jsBundle ''T'' None],
       groupBundles := (groupBundles hoistGraph)
         (groupOf ''c'' := groupBundles hoistGraph (groupOf ''c'') @ [jsBundle ''T'' None])\<rparr>"




section \<open>Properties\<close>

subsection \<open>Sets as lists\<close>

lemma set_setAdd: "set (setAdd x xs) = insert x (set xs)"
  by (auto simp: setAdd_def)

lemma length_setAdd: "length (setAdd x xs) \<le> Suc (length xs)"
  by (simp add: setAdd_def)

lemma length_setAdd_ge: "length xs \<le> length (setAdd x xs)"
  by (simp add: setAdd_def)

lemma distinct_setAdd: "distinct xs \<Longrightarrow> distinct (setAdd x xs)"
  by (simp add: setAdd_def)

lemma set_fold_setAdd: "set (fold setAdd xs ys) = set xs \<union> set ys"
  by (induction xs arbitrary: ys) (auto simp: set_setAdd)

lemma length_fold_setAdd: "length (fold setAdd xs ys) \<le> length ys + length xs"
proof (induction xs arbitrary: ys)
  case Nil
  show ?case by simp
next
  case (Cons x xs)
  have "length (fold setAdd xs (setAdd x ys)) \<le> length (setAdd x ys) + length xs"
    by (rule Cons.IH)
  also have "\<dots> \<le> Suc (length ys) + length xs"
    using length_setAdd [of x ys] by simp
  finally show ?case by simp
qed

lemma length_fold_setAdd_ge: "length ys \<le> length (fold setAdd xs ys)"
proof (induction xs arbitrary: ys)
  case Nil
  show ?case by simp
next
  case (Cons x xs)
  have "length ys \<le> length (setAdd x ys)" by (rule length_setAdd_ge)
  also have "\<dots> \<le> length (fold setAdd xs (setAdd x ys))" by (rule Cons.IH)
  finally show ?case by simp
qed

lemma distinct_fold_setAdd: "distinct ys \<Longrightarrow> distinct (fold setAdd xs ys)"
  by (induction xs arbitrary: ys) (auto simp: distinct_setAdd)

lemma fold_setAdd_absorb: "set xs \<subseteq> set ys \<Longrightarrow> fold setAdd xs ys = ys"
  by (induction xs arbitrary: ys) (auto simp: setAdd_def)

lemma fold_setAdd_idem: "fold setAdd xs (fold setAdd xs ys) = fold setAdd xs ys"
  by (rule fold_setAdd_absorb) (simp add: set_fold_setAdd)

lemma newSet_distinct_id: "distinct xs \<Longrightarrow> length (newSet xs) = length xs"
proof -
  assume d: "distinct xs"
  have "distinct (newSet xs)" unfolding newSet_def by (rule distinct_fold_setAdd) simp
  moreover have "set (newSet xs) = set xs" by (simp add: newSet_def set_fold_setAdd)
  ultimately show ?thesis using d by (metis distinct_card)
qed

subsection \<open>The optimizing passes and the membership relation\<close>

lemma groupBundles_remove [simp]:
  "groupBundles (removeAssetGraphFromBundle h G a b) = groupBundles G"
  by (simp add: removeAssetGraphFromBundle_def)

lemma groupBundles_add [simp]:
  "groupBundles (addAssetGraphToBundle h G a b) = groupBundles G"
  by (simp add: addAssetGraphToBundle_def)

lemma groupBundles_create [simp]:
  "groupBundles (fst (createBundle h G opts)) = groupBundles G"
  by (simp add: createBundle_def Let_def)

lemma groupBundles_dedupAsset [simp]:
  "groupBundles (deduplicateAsset h b a G) = groupBundles G"
  by (simp add: deduplicateAsset_def)

lemma groupBundles_fold_dedupAsset [simp]:
  "groupBundles (fold (deduplicateAsset h b) as G) = groupBundles G"
  by (induction as arbitrary: G) auto

lemma groupBundles_dedupNode [simp]:
  "groupBundles (deduplicateNode h b n G) = groupBundles G"
  by (cases n) (simp_all add: deduplicateNode_def)

lemma groupBundles_fold_dedupNode [simp]:
  "groupBundles (fold (deduplicateNode h b) ns G) = groupBundles G"
  by (induction ns arbitrary: G) auto

lemma groupBundles_dedup [simp]:
  "groupBundles (deduplicateBundle h G b) = groupBundles G"
  by (simp add: deduplicateBundle_def)

lemma groupBundles_dedupAll [simp]:
  "groupBundles (deduplicateAll h G) = groupBundles G"
proof -
  have "groupBundles (fold (\<lambda>bundle G1. deduplicateBundle h G1 bundle) bs G) = groupBundles G" for bs
    by (induction bs arbitrary: G) auto
  then show ?thesis by (simp add: deduplicateAll_def)
qed

lemmas scenario_defs = envWeb_def envWorker_def jsAsset_def jsBundle_def importOf_def groupOf_def
  plainHost_def hoistGraph_def workerBundle_def pageBundle_def dedupHost_def dedupGraph_def

subsection \<open>Ancestor deduplication\<close>

lemma bundleAssets_dedupAsset_other:
  "b \<noteq> bundle \<Longrightarrow> bundleAssets (deduplicateAsset h b a G) bundle = bundleAssets G bundle"
  by (simp add: deduplicateAsset_def removeAssetGraphFromBundle_def)

lemma bundleAssets_fold_dedupAsset_other:
  "b \<noteq> bundle \<Longrightarrow> bundleAssets (fold (deduplicateAsset h b) as G) bundle = bundleAssets G bundle"
  by (induction as arbitrary: G) (simp_all add: bundleAssets_dedupAsset_other)

lemma bundleAssets_dedupNode_other:
  "b \<noteq> bundle \<Longrightarrow> bundleAssets (deduplicateNode h b n G) bundle = bundleAssets G bundle"
  by (cases n) (simp_all add: deduplicateNode_def bundleAssets_fold_dedupAsset_other)

lemma bundleAssets_fold_dedupNode_other:
  "b \<noteq> bundle \<Longrightarrow> bundleAssets (fold (deduplicateNode h b) ns G) bundle = bundleAssets G bundle"
  by (induction ns arbitrary: G) (simp_all add: bundleAssets_dedupNode_other)

lemma deduplicateBundle_isolated:
  "isIsolated (b_env bundle) \<or> \<not> b_isSplittable bundle \<Longrightarrow> deduplicateBundle h G bundle = G"
  by (simp add: deduplicateBundle_def)

lemma bundleAssets_dedup_frame:
  assumes "isIsolated (b_env bundle) \<or> \<not> b_isSplittable bundle"
  shows "bundleAssets (deduplicateBundle h G b) bundle = bundleAssets G bundle"
proof (cases "b = bundle")
  case True
  then show ?thesis using assms by (simp add: deduplicateBundle_isolated)
next
  case False
  then show ?thesis
    by (simp add: deduplicateBundle_def bundleAssets_fold_dedupNode_other)
qed

lemma bundleAssets_dedup_fold_frame:
  assumes "isIsolated (b_env bundle) \<or> \<not> b_isSplittable bundle"
  shows "bundleAssets (fold (\<lambda>b G1. deduplicateBundle h G1 b) bs G) bundle = bundleAssets G bundle"
  using assms by (induction bs arbitrary: G) (simp_all add: bundleAssets_dedup_frame)

text \<open>
  Claim C8. Ancestor deduplication leaves a bundle whose environment is isolated, or
  that is not splittable, unchanged: deduplicating it returns the graph as it was, and
  the whole postorder pass removes no asset from it. The shared bundle of the third
  pass is deduplicated by the same function.
\<close>

theorem deduplicate_leaves_isolated_unchanged:
  assumes "isIsolated (b_env bundle) \<or> \<not> b_isSplittable bundle"
  shows "deduplicateBundle h G bundle = G \<and>
         bundleAssets (deduplicateAll h G) bundle = bundleAssets G bundle"
  using assms
  by (simp add: deduplicateBundle_isolated deduplicateAll_def bundleAssets_dedup_fold_frame)

theorem deduplicate_leaves_isolated_unchanged_witness:
  "isIsolated (b_env workerBundle) \<and>
   deduplicateBundle dedupHost dedupGraph workerBundle = dedupGraph \<and>
   bundleAssets (deduplicateAll dedupHost dedupGraph) workerBundle = [jsAsset ''w'', jsAsset ''x''] \<and>
   bundleAssets (deduplicateAll dedupHost dedupGraph) pageBundle = [jsAsset ''p'']"
proof -
  have iso: "isIsolated (b_env workerBundle) \<or> \<not> b_isSplittable workerBundle"
    by (simp add: isIsolated_def scenario_defs)
  have page: "bundleAssets (deduplicateAll dedupHost dedupGraph) pageBundle = [jsAsset ''p'']"
    by (simp add: deduplicateAll_def deduplicateBundle_def deduplicateNode_def deduplicateAsset_def
        preorderAll_def hasAsset_def removeAssetGraphFromBundle_def isIsolated_def scenario_defs)
  have start: "bundleAssets dedupGraph workerBundle = [jsAsset ''w'', jsAsset ''x'']"
    by (simp add: scenario_defs)
  show ?thesis
    using deduplicate_leaves_isolated_unchanged [OF iso, of dedupHost dedupGraph] iso page start
    by (simp add: isIsolated_def scenario_defs)
qed

lemmas optimize_scenario_defs = fullGraph_def sharedCandidate_def asyncGraph_def asyncHost_def
  mismatchHost_def

subsection \<open>Skipped candidates\<close>

lemma set_connectedBundleGroups:
  "set (connectedBundleGroups G sourceBundles) =
     (\<Union>b \<in> set sourceBundles. set (getBundleGroupsContainingBundle G b))"
proof -
  have "set (fold (\<lambda>bundle groups. fold setAdd (getBundleGroupsContainingBundle G bundle) groups)
                  bs acc) =
        (\<Union>b \<in> set bs. set (getBundleGroupsContainingBundle G b)) \<union> set acc" for bs acc
    by (induction bs arbitrary: acc) (auto simp: set_fold_setAdd)
  then show ?thesis by (simp add: connectedBundleGroups_def)
qed

text \<open>
  Claim C5. When some bundle group that contains a source bundle of the candidate holds
  at least \<open>maxParallelRequests\<close> bundles, the candidate is skipped: the graph stays as it
  is (no shared bundle, no asset moved, no membership changed), no error is raised, and
  the loop goes on with the next candidate.
\<close>

theorem full_group_skips_candidate:
  assumes "sourceBundle \<in> set (c_sourceBundles cand)"
    and "bundleGroup \<in> set (getBundleGroupsContainingBundle G sourceBundle)"
    and "length (getBundlesInBundleGroup G bundleGroup) \<ge> maxParallelRequests"
  shows "extractCandidate h cand G = Inr G \<and>
         extractAll h (cand # cands) G = extractAll h cands G"
proof -
  have "bundleGroup \<in> set (connectedBundleGroups G (c_sourceBundles cand))"
    using assms(1,2) by (auto simp: set_connectedBundleGroups)
  then have "list_ex (\<lambda>group. length (getBundlesInBundleGroup G group) \<ge> maxParallelRequests)
               (connectedBundleGroups G (c_sourceBundles cand))"
    using assms(3) by (auto simp: list_ex_iff)
  then have "extractCandidate h cand G = Inr G"
    by (simp add: extractCandidate_def Let_def)
  then show ?thesis by simp
qed

theorem full_group_skips_candidate_witness:
  "jsBundle ''X'' (Some (jsAsset ''x'')) \<in> set (c_sourceBundles sharedCandidate) \<and>
   groupOf ''x'' \<in> set (getBundleGroupsContainingBundle fullGraph (jsBundle ''X'' (Some (jsAsset ''x'')))) \<and>
   length (getBundlesInBundleGroup fullGraph (groupOf ''x'')) \<ge> maxParallelRequests \<and>
   extractCandidate plainHost sharedCandidate fullGraph = Inr fullGraph \<and>
   extractAll plainHost [sharedCandidate] fullGraph = Inr fullGraph"
proof -
  have a: "jsBundle ''X'' (Some (jsAsset ''x'')) \<in> set (c_sourceBundles sharedCandidate)"
    by (simp add: sharedCandidate_def)
  have b: "groupOf ''x'' \<in> set (getBundleGroupsContainingBundle fullGraph (jsBundle ''X'' (Some (jsAsset ''x''))))"
    by (simp add: getBundleGroupsContainingBundle_def fullGraph_def scenario_defs)
  have c: "length (getBundlesInBundleGroup fullGraph (groupOf ''x'')) \<ge> maxParallelRequests"
    by (simp add: getBundlesInBundleGroup_def fullGraph_def maxParallelRequests_def)
  show ?thesis
    using full_group_skips_candidate [OF a b c, of plainHost "[]"] a b c by simp
qed

subsection \<open>Async internalization\<close>

lemma hasAsset_internalized [simp]:
  "hasAsset (G\<lparr>internalized := m\<rparr>) b a = hasAsset G b a"
  by (simp add: hasAsset_def)

lemma fold_internalizeIn:
  "\<exists>m'. fold (internalizeIn h dependency resolution) bs (G\<lparr>internalized := m\<rparr>) =
           G\<lparr>internalized := m'\<rparr> \<and>
         set m \<subseteq> set m' \<and>
         (\<forall>b \<in> set bs. hasAsset G b resolution \<or>
              (\<forall>marks. isAssetInAncestorBundles h (G\<lparr>internalized := marks\<rparr>) b resolution) \<longrightarrow>
              (b, dependency) \<in> set m') \<and>
         (\<forall>p \<in> set m'. p \<in> set m \<or>
              (fst p \<in> set bs \<and> snd p = dependency \<and>
               (hasAsset G (fst p) resolution \<or>
                (\<exists>marks. isAssetInAncestorBundles h (G\<lparr>internalized := marks\<rparr>) (fst p) resolution))))"
proof (induction bs arbitrary: m)
  case Nil
  show ?case by auto
next
  case (Cons b bs)
  let ?c = "hasAsset G b resolution \<or> isAssetInAncestorBundles h (G\<lparr>internalized := m\<rparr>) b resolution"
  let ?m1 = "if ?c then setAdd (b, dependency) m else m"
  have step: "internalizeIn h dependency resolution b (G\<lparr>internalized := m\<rparr>) = G\<lparr>internalized := ?m1\<rparr>"
    by (simp add: internalizeIn_def internalizeAsyncDependency_def)
  from Cons.IH [of ?m1] obtain m' where
    r: "fold (internalizeIn h dependency resolution) bs (G\<lparr>internalized := ?m1\<rparr>) = G\<lparr>internalized := m'\<rparr>"
    and sub: "set ?m1 \<subseteq> set m'"
    and marks: "\<forall>b \<in> set bs. hasAsset G b resolution \<or>
              (\<forall>marks. isAssetInAncestorBundles h (G\<lparr>internalized := marks\<rparr>) b resolution) \<longrightarrow>
              (b, dependency) \<in> set m'"
    and only: "\<forall>p \<in> set m'. p \<in> set ?m1 \<or>
              (fst p \<in> set bs \<and> snd p = dependency \<and>
               (hasAsset G (fst p) resolution \<or>
                (\<exists>marks. isAssetInAncestorBundles h (G\<lparr>internalized := marks\<rparr>) (fst p) resolution)))"
    by blast
  have 1: "fold (internalizeIn h dependency resolution) (b # bs) (G\<lparr>internalized := m\<rparr>) = G\<lparr>internalized := m'\<rparr>"
    using step r by simp
  have 2: "set m \<subseteq> set m'"
    using sub by (auto simp: set_setAdd split: if_splits)
  have 3: "\<forall>x \<in> set (b # bs). hasAsset G x resolution \<or>
              (\<forall>marks. isAssetInAncestorBundles h (G\<lparr>internalized := marks\<rparr>) x resolution) \<longrightarrow>
              (x, dependency) \<in> set m'"
  proof
    fix x assume x: "x \<in> set (b # bs)"
    show "hasAsset G x resolution \<or>
              (\<forall>marks. isAssetInAncestorBundles h (G\<lparr>internalized := marks\<rparr>) x resolution) \<longrightarrow>
              (x, dependency) \<in> set m'"
    proof (cases "x \<in> set bs")
      case True
      then show ?thesis using marks by blast
    next
      case False
      then have xb: "x = b" using x by simp
      show ?thesis
      proof
        assume "hasAsset G x resolution \<or>
              (\<forall>marks. isAssetInAncestorBundles h (G\<lparr>internalized := marks\<rparr>) x resolution)"
        then have ?c using xb by blast
        then have "(b, dependency) \<in> set ?m1" by (simp add: set_setAdd)
        then show "(x, dependency) \<in> set m'" using sub xb by blast
      qed
    qed
  qed
  have 4: "\<forall>p \<in> set m'. p \<in> set m \<or>
              (fst p \<in> set (b # bs) \<and> snd p = dependency \<and>
               (hasAsset G (fst p) resolution \<or>
                (\<exists>marks. isAssetInAncestorBundles h (G\<lparr>internalized := marks\<rparr>) (fst p) resolution)))"
  proof
    fix p assume p: "p \<in> set m'"
    from only p have "p \<in> set ?m1 \<or>
              (fst p \<in> set bs \<and> snd p = dependency \<and>
               (hasAsset G (fst p) resolution \<or>
                (\<exists>marks. isAssetInAncestorBundles h (G\<lparr>internalized := marks\<rparr>) (fst p) resolution)))"
      by blast
    then show "p \<in> set m \<or>
              (fst p \<in> set (b # bs) \<and> snd p = dependency \<and>
               (hasAsset G (fst p) resolution \<or>
                (\<exists>marks. isAssetInAncestorBundles h (G\<lparr>internalized := marks\<rparr>) (fst p) resolution)))"
    proof
      assume "p \<in> set ?m1"
      then show ?thesis
        by (cases ?c) (auto simp: set_setAdd)
    next
      assume "fst p \<in> set bs \<and> snd p = dependency \<and>
               (hasAsset G (fst p) resolution \<or>
                (\<exists>marks. isAssetInAncestorBundles h (G\<lparr>internalized := marks\<rparr>) (fst p) resolution))"
      then show ?thesis by simp
    qed
  qed
  show ?case using 1 2 3 4 by blast
qed


lemma internalizeNodes_append:
  "internalizeNodes h (xs @ ys) st =
     (case internalizeNodes h xs st of Inl e \<Rightarrow> Inl e | Inr st1 \<Rightarrow> internalizeNodes h ys st1)"
  by (induction xs arbitrary: st) (simp_all split: sum.splits)

lemma internalizeNode_mismatch:
  assumes "\<not> d_isEntry dependency" and "d_isAsync dependency"
    and "getDependencyResolution h dependency = Some resolution"
    and "\<forall>bundleGroup. resolveExternalDependency h G dependency \<noteq>
           Some (BundleGroupResolution bundleGroup)"
  shows "internalizeNode h (DependencyNode dependency) (G, groups) = Inl ExternalResolutionMismatch"
proof (cases "resolveExternalDependency h G dependency")
  case None
  then show ?thesis using assms by (simp add: internalizeNode_def)
next
  case (Some r)
  then show ?thesis using assms
    by (cases r) (simp_all add: internalizeNode_def)
qed

text \<open>
  Claim C6. For an async dependency that is not an entry and has a resolution: when the
  external resolution is not a bundle group (an asset, or nothing), the visit fails
  with \<open>ExternalResolutionMismatch\<close> and so does the traversal that reaches it; when it is a
  bundle group, no error is raised, the group is recorded, and the dependency is
  internalized in the bundles with the dependency that have the resolved asset or find
  it in their ancestors, and in no other bundle; nothing else of the graph changes.
\<close>

theorem internalize_needs_bundle_group:
  assumes "\<not> d_isEntry dependency" and "d_isAsync dependency"
    and "getDependencyResolution h dependency = Some resolution"
  shows "((\<forall>bundleGroup. resolveExternalDependency h G dependency \<noteq>
                Some (BundleGroupResolution bundleGroup)) \<longrightarrow>
            internalizeNode h (DependencyNode dependency) (G, groups) =
              Inl ExternalResolutionMismatch \<and>
            (internalizeNodes h before st0 = Inr (G, groups) \<longrightarrow>
               internalizeNodes h (before @ DependencyNode dependency # ns) st0 =
                 Inl ExternalResolutionMismatch)) \<and>
         (\<forall>bundleGroup. resolveExternalDependency h G dependency =
                Some (BundleGroupResolution bundleGroup) \<longrightarrow>
            (\<exists>G'. internalizeNode h (DependencyNode dependency) (G, groups) =
                     Inr (G', setAdd bundleGroup groups) \<and>
                   G'\<lparr>internalized := internalized G\<rparr> = G \<and>
                   (\<forall>b \<in> set (findBundlesWithDependency h G dependency).
                      hasAsset G b resolution \<or>
                      (\<forall>marks. isAssetInAncestorBundles h (G\<lparr>internalized := marks\<rparr>) b resolution)
                      \<longrightarrow> (b, dependency) \<in> set (internalized G')) \<and>
                   (\<forall>p \<in> set (internalized G'). p \<in> set (internalized G) \<or>
                      (fst p \<in> set (findBundlesWithDependency h G dependency) \<and>
                       snd p = dependency \<and>
                       (hasAsset G (fst p) resolution \<or>
                        (\<exists>marks. isAssetInAncestorBundles h (G\<lparr>internalized := marks\<rparr>)
                                   (fst p) resolution))))))"
proof (intro conjI impI allI)
  assume no: "\<forall>bundleGroup. resolveExternalDependency h G dependency \<noteq>
                Some (BundleGroupResolution bundleGroup)"
  show "internalizeNode h (DependencyNode dependency) (G, groups) = Inl ExternalResolutionMismatch"
    using assms no by (rule internalizeNode_mismatch)
next
  assume no: "\<forall>bundleGroup. resolveExternalDependency h G dependency \<noteq>
                Some (BundleGroupResolution bundleGroup)"
    and pre: "internalizeNodes h before st0 = Inr (G, groups)"
  have "internalizeNode h (DependencyNode dependency) (G, groups) = Inl ExternalResolutionMismatch"
    using assms no by (rule internalizeNode_mismatch)
  then show "internalizeNodes h (before @ DependencyNode dependency # ns) st0 =
               Inl ExternalResolutionMismatch"
    using pre by (simp add: internalizeNodes_append)
next
  fix bundleGroup
  assume yes: "resolveExternalDependency h G dependency = Some (BundleGroupResolution bundleGroup)"
  let ?bs = "findBundlesWithDependency h G dependency"
  from fold_internalizeIn [where h = h and dependency = dependency and resolution = resolution
      and bs = ?bs and G = G and m = "internalized G"]
  obtain m' where
    r: "fold (internalizeIn h dependency resolution) ?bs (G\<lparr>internalized := internalized G\<rparr>) =
          G\<lparr>internalized := m'\<rparr>"
    and marks: "\<forall>b \<in> set ?bs. hasAsset G b resolution \<or>
              (\<forall>marks. isAssetInAncestorBundles h (G\<lparr>internalized := marks\<rparr>) b resolution) \<longrightarrow>
              (b, dependency) \<in> set m'"
    and only: "\<forall>p \<in> set m'. p \<in> set (internalized G) \<or>
              (fst p \<in> set ?bs \<and> snd p = dependency \<and>
               (hasAsset G (fst p) resolution \<or>
                (\<exists>marks. isAssetInAncestorBundles h (G\<lparr>internalized := marks\<rparr>) (fst p) resolution)))"
    by blast
  have r': "fold (internalizeIn h dependency resolution) ?bs G = G\<lparr>internalized := m'\<rparr>"
    using r by simp
  have "internalizeNode h (DependencyNode dependency) (G, groups) =
          Inr (G\<lparr>internalized := m'\<rparr>, setAdd bundleGroup groups)"
    using assms yes r' by (simp add: internalizeNode_def)
  moreover have "(G\<lparr>internalized := m'\<rparr>)\<lparr>internalized := internalized G\<rparr> = G"
    by simp
  ultimately show "\<exists>G'. internalizeNode h (DependencyNode dependency) (G, groups) =
                     Inr (G', setAdd bundleGroup groups) \<and>
                   G'\<lparr>internalized := internalized G\<rparr> = G \<and>
                   (\<forall>b \<in> set (findBundlesWithDependency h G dependency).
                      hasAsset G b resolution \<or>
                      (\<forall>marks. isAssetInAncestorBundles h (G\<lparr>internalized := marks\<rparr>) b resolution)
                      \<longrightarrow> (b, dependency) \<in> set (internalized G')) \<and>
                   (\<forall>p \<in> set (internalized G'). p \<in> set (internalized G) \<or>
                      (fst p \<in> set (findBundlesWithDependency h G dependency) \<and>
                       snd p = dependency \<and>
                       (hasAsset G (fst p) resolution \<or>
                        (\<exists>marks. isAssetInAncestorBundles h (G\<lparr>internalized := marks\<rparr>)
                                   (fst p) resolution))))"
    using marks only by (intro exI [of _ "G\<lparr>internalized := m'\<rparr>"]) simp
qed

theorem internalize_needs_bundle_group_witness:
  "\<not> d_isEntry (importOf ''x'') \<and> d_isAsync (importOf ''x'') \<and>
   getDependencyResolution asyncHost (importOf ''x'') = Some (jsAsset ''x'') \<and>
   getDependencyResolution mismatchHost (importOf ''x'') = Some (jsAsset ''x'') \<and>
   (\<forall>bundleGroup. resolveExternalDependency mismatchHost asyncGraph (importOf ''x'') \<noteq>
       Some (BundleGroupResolution bundleGroup)) \<and>
   internalizeNode mismatchHost (DependencyNode (importOf ''x'')) (asyncGraph, []) =
     Inl ExternalResolutionMismatch \<and>
   resolveExternalDependency asyncHost asyncGraph (importOf ''x'') =
     Some (BundleGroupResolution (groupOf ''x'')) \<and>
   jsBundle ''A'' (Some (jsAsset ''a'')) \<in> set (findBundlesWithDependency asyncHost asyncGraph (importOf ''x'')) \<and>
   hasAsset asyncGraph (jsBundle ''A'' (Some (jsAsset ''a''))) (jsAsset ''x'') \<and>
   (\<exists>G'. internalizeNode asyncHost (DependencyNode (importOf ''x'')) (asyncGraph, []) =
            Inr (G', [groupOf ''x'']) \<and>
          (jsBundle ''A'' (Some (jsAsset ''a'')), importOf ''x'') \<in> set (internalized G'))"
proof -
  have e: "\<not> d_isEntry (importOf ''x'')" and a: "d_isAsync (importOf ''x'')"
    by (simp_all add: importOf_def)
  have r1: "getDependencyResolution asyncHost (importOf ''x'') = Some (jsAsset ''x'')"
    and r2: "getDependencyResolution mismatchHost (importOf ''x'') = Some (jsAsset ''x'')"
    by (simp_all add: asyncHost_def mismatchHost_def plainHost_def)
  have no: "\<forall>bundleGroup. resolveExternalDependency mismatchHost asyncGraph (importOf ''x'') \<noteq>
       Some (BundleGroupResolution bundleGroup)"
    by (simp add: mismatchHost_def asyncHost_def plainHost_def)
  have yes: "resolveExternalDependency asyncHost asyncGraph (importOf ''x'') =
     Some (BundleGroupResolution (groupOf ''x''))"
    by (simp add: asyncHost_def plainHost_def)
  have f: "jsBundle ''A'' (Some (jsAsset ''a'')) \<in> set (findBundlesWithDependency asyncHost asyncGraph (importOf ''x''))"
    by (simp add: asyncHost_def plainHost_def)
  have ha: "hasAsset asyncGraph (jsBundle ''A'' (Some (jsAsset ''a''))) (jsAsset ''x'')"
    by (simp add: hasAsset_def asyncGraph_def)
  have fail: "internalizeNode mismatchHost (DependencyNode (importOf ''x'')) (asyncGraph, []) =
     Inl ExternalResolutionMismatch"
    using internalize_needs_bundle_group [OF e a r2, of asyncGraph "[]" "[]"] no by blast
  have ok: "\<exists>G'. internalizeNode asyncHost (DependencyNode (importOf ''x'')) (asyncGraph, []) =
            Inr (G', [groupOf ''x'']) \<and>
          (jsBundle ''A'' (Some (jsAsset ''a'')), importOf ''x'') \<in> set (internalized G')"
    using internalize_needs_bundle_group [OF e a r1, of asyncGraph "[]" "[]"] yes f ha
    by (auto simp: setAdd_def)
  show ?thesis using e a r1 r2 no yes f ha fail ok by blast
qed

lemmas tie_scenario_defs = tieGraph_def tieHost_def

subsection \<open>The order of the candidates\<close>

text \<open>
  Claim C4 as stated fails: two candidates of the same size are processed in the order
  in which the traversal created them, not in the order of their keys. Here the candidate
  keyed \<open>C:D\<close> (asset \<open>y\<close>) is created first and stays before the candidate keyed \<open>A:B\<close>
  (asset \<open>z\<close>) of the same size.
\<close>

lemma tie_collect:
  "collectCandidates tieHost tieGraph =
     [(''C:D'', \<lparr>c_assets = [jsAsset ''y''],
                  c_sourceBundles = [jsBundle ''C'' None, jsBundle ''D'' None], c_size = 40000\<rparr>),
      (''A:B'', \<lparr>c_assets = [jsAsset ''z''],
                  c_sourceBundles = [jsBundle ''A'' None, jsBundle ''B'' None], c_size = 40000\<rparr>)]"
  by (simp add: collectCandidates_def collectCandidate_def containingBundlesOf_def candidateId_def
      findBundlesWithAsset_def hasAsset_def getMainEntry_def minBundles_def newSet_def setAdd_def
      tie_scenario_defs scenario_defs)

theorem ties_not_ordered_by_key_counterexample:
  "map fst (collectCandidates tieHost tieGraph) = [''C:D'', ''A:B''] \<and>
   map (c_assets \<circ> snd) (collectCandidates tieHost tieGraph) = [[jsAsset ''y''], [jsAsset ''z'']] \<and>
   map c_size (sortedCandidates (collectCandidates tieHost tieGraph)) = [40000, 40000] \<and>
   map c_assets (sortedCandidates (collectCandidates tieHost tieGraph)) =
     [[jsAsset ''y''], [jsAsset ''z'']] \<and>
   ''A:B'' < ''C:D''"
proof -
  have "''A:B'' < ''C:D''" by code_simp
  then show ?thesis
    by (simp add: tie_collect sortedCandidates_def minBundleSize_def)
qed

text \<open>
  Claim C4, amended. The candidates processed are those of size at least
  \<open>minBundleSize\<close>, in descending order of size, and candidates of the same size keep
  the order in which they were entered into the map.
\<close>

theorem sortedCandidates_descending_stable:
  "sorted_wrt (\<lambda>a b. c_size a \<ge> c_size b) (sortedCandidates candidateBundles) \<and>
   (\<forall>k. filter (\<lambda>c. c_size c = k) (sortedCandidates candidateBundles) =
        filter (\<lambda>c. c_size c = k \<and> k \<ge> minBundleSize) (map snd candidateBundles))"
proof
  let ?f = "\<lambda>c::candidate. - int (c_size c)"
  let ?xs = "filter (\<lambda>c. c_size c \<ge> minBundleSize) (map snd candidateBundles)"
  have "sorted (map ?f (sort_key ?f ?xs))" by (rule sorted_sort_key)
  then have "sorted_wrt (\<lambda>a b. ?f a \<le> ?f b) (sort_key ?f ?xs)"
    by (simp add: sorted_map)
  then show "sorted_wrt (\<lambda>a b. c_size a \<ge> c_size b) (sortedCandidates candidateBundles)"
    by (simp add: sortedCandidates_def)
  show "\<forall>k. filter (\<lambda>c. c_size c = k) (sortedCandidates candidateBundles) =
        filter (\<lambda>c. c_size c = k \<and> k \<ge> minBundleSize) (map snd candidateBundles)"
  proof
    fix k
    have "filter (\<lambda>c. ?f c = - int k) (sort_key ?f ?xs) = filter (\<lambda>c. ?f c = - int k) ?xs"
      by (rule sort_key_stable)
    moreover have "(\<lambda>c. ?f c = - int k) = (\<lambda>c. c_size c = k)" by auto
    ultimately have "filter (\<lambda>c. c_size c = k) (sortedCandidates candidateBundles) =
        filter (\<lambda>c. c_size c = k) ?xs"
      by (simp add: sortedCandidates_def)
    also have "\<dots> = filter (\<lambda>c. c_size c = k \<and> k \<ge> minBundleSize) (map snd candidateBundles)"
      by (induction candidateBundles) auto
    finally show "filter (\<lambda>c. c_size c = k) (sortedCandidates candidateBundles) =
        filter (\<lambda>c. c_size c = k \<and> k \<ge> minBundleSize) (map snd candidateBundles)" .
  qed
qed

lemmas extract_scenario_defs = extractGraph_def extractHost_def bigBundle_def

subsection \<open>Shared bundles\<close>

lemma distinct_containingBundlesOf:
  "distinct (bundles G) \<Longrightarrow> distinct (containingBundlesOf G a)"
  by (simp add: containingBundlesOf_def findBundlesWithAsset_def)

lemma containingBundlesOf_flags:
  "b \<in> set (containingBundlesOf G a) \<Longrightarrow> \<not> b_isEntry b \<and> b_isSplittable b"
  by (simp add: containingBundlesOf_def)

lemma set_alist_update: "set (AList.update k v al) \<subseteq> insert (k, v) (set al)"
  by (induction al) auto

lemma goodCandidate_new:
  assumes "distinct (bundles G)" and "length (containingBundlesOf G a) > minBundles"
  shows "goodCandidate h G \<lparr>c_assets = [a], c_sourceBundles = newSet (containingBundlesOf G a),
                            c_size = getTotalSize h a\<rparr>"
proof -
  have d: "distinct (containingBundlesOf G a)"
    using assms(1) by (rule distinct_containingBundlesOf)
  have "distinct (newSet (containingBundlesOf G a))"
    unfolding newSet_def by (rule distinct_fold_setAdd) simp
  moreover have "length (newSet (containingBundlesOf G a)) > minBundles"
    using assms(2) d by (simp add: newSet_distinct_id)
  moreover have "list_all (\<lambda>b. list_ex (\<lambda>x. b \<in> set (containingBundlesOf G x)) [a])
                   (newSet (containingBundlesOf G a))"
    by (simp add: list_all_iff newSet_def set_fold_setAdd)
  ultimately show ?thesis by (simp add: goodCandidate_def)
qed

lemma goodCandidate_more:
  assumes "goodCandidate h G c"
  shows "goodCandidate h G (c\<lparr>c_assets := c_assets c @ [a],
            c_sourceBundles := fold setAdd (containingBundlesOf G a) (c_sourceBundles c),
            c_size := c_size c + getTotalSize h a\<rparr>)"
proof -
  have "distinct (fold setAdd (containingBundlesOf G a) (c_sourceBundles c))"
    using assms by (simp add: goodCandidate_def distinct_fold_setAdd)
  moreover have "length (fold setAdd (containingBundlesOf G a) (c_sourceBundles c)) > minBundles"
    using assms length_fold_setAdd_ge [of "c_sourceBundles c" "containingBundlesOf G a"]
    by (simp add: goodCandidate_def)
  moreover have "list_all (\<lambda>b. list_ex (\<lambda>x. b \<in> set (containingBundlesOf G x)) (c_assets c @ [a]))
                   (fold setAdd (containingBundlesOf G a) (c_sourceBundles c))"
    using assms
    by (auto simp: goodCandidate_def list_all_iff list_ex_iff set_fold_setAdd)
  ultimately show ?thesis using assms by (simp add: goodCandidate_def)
qed

lemma collectCandidate_good:
  assumes "distinct (bundles G)" and "\<forall>p \<in> set cb. goodCandidate h G (snd p)"
  shows "\<forall>p \<in> set (fst (collectCandidate h G n cb)). goodCandidate h G (snd p)"
proof (cases n)
  case (DependencyNode d)
  then show ?thesis using assms(2) by (simp add: collectCandidate_def)
next
  case (AssetNode a)
  show ?thesis
  proof (cases "length (containingBundlesOf G a) > minBundles")
    case False
    then show ?thesis using assms(2) AssetNode by (simp add: collectCandidate_def)
  next
    case True
    let ?k = "candidateId (containingBundlesOf G a)"
    show ?thesis
    proof (cases "map_of cb ?k")
      case None
      let ?c = "\<lparr>c_assets = [a], c_sourceBundles = newSet (containingBundlesOf G a),
                 c_size = getTotalSize h a\<rparr>"
      have "fst (collectCandidate h G n cb) = AList.update ?k ?c cb"
        using AssetNode True None by (simp add: collectCandidate_def Let_def)
      moreover have "goodCandidate h G ?c" using assms(1) True by (rule goodCandidate_new)
      ultimately show ?thesis
        using assms(2) set_alist_update [of ?k ?c cb] by auto
    next
      case (Some c)
      let ?c = "c\<lparr>c_assets := c_assets c @ [a],
            c_sourceBundles := fold setAdd (containingBundlesOf G a) (c_sourceBundles c),
            c_size := c_size c + getTotalSize h a\<rparr>"
      have "(?k, c) \<in> set cb" using Some by (rule map_of_SomeD)
      then have "goodCandidate h G c" using assms(2) by auto
      then have "goodCandidate h G ?c" by (rule goodCandidate_more)
      moreover have "fst (collectCandidate h G n cb) = AList.update ?k ?c cb"
        using AssetNode True Some by (simp add: collectCandidate_def Let_def)
      ultimately show ?thesis
        using assms(2) set_alist_update [of ?k ?c cb] by auto
    qed
  qed
qed

lemma traverseContents_invariant:
  "(\<And>n s. P s \<Longrightarrow> P (fst (v n s))) \<Longrightarrow> P s \<Longrightarrow> P (traverseContents v t s)"
  "(\<And>n s. P s \<Longrightarrow> P (fst (v n s))) \<Longrightarrow> P s \<Longrightarrow> P (traverseContentsList v ts s)"
proof (induction v t s and v ts s rule: traverseContents_traverseContentsList.induct)
  case (1 v n ts s)
  obtain s1 skip where vn: "v n s = (s1, skip)" by (cases "v n s")
  have g: "P s1" using "1.prems"(1) [OF "1.prems"(2), of n] vn by simp
  show ?case
  proof (cases skip)
    case True
    then show ?thesis using vn g by simp
  next
    case False
    have "P (traverseContentsList v ts s1)"
      using "1.IH" [OF vn [symmetric] False "1.prems"(1) g] by simp
    then show ?thesis using vn False by simp
  qed
next
  case (2 v s)
  then show ?case by simp
next
  case (3 v t ts s)
  have "P (traverseContents v t s)" using "3.IH"(1) [OF "3.prems"(1) "3.prems"(2)] by simp
  then show ?case using "3.IH"(2) [OF "3.prems"(1)] by simp
qed

lemma collectCandidates_good:
  "distinct (bundles G) \<Longrightarrow> \<forall>p \<in> set (collectCandidates h G). goodCandidate h G (snd p)"
proof -
  assume d: "distinct (bundles G)"
  have "\<forall>p \<in> set (traverseContentsList (collectCandidate h G) (graphContents h G) []).
          goodCandidate h G (snd p)"
    by (rule traverseContents_invariant(2)
          [where P = "\<lambda>cb. \<forall>p \<in> set cb. goodCandidate h G (snd p)"])
       (simp_all add: collectCandidate_good [OF d])
  then show ?thesis by (simp add: collectCandidates_def)
qed

lemma sortedCandidates_good:
  assumes "distinct (bundles G)" and "cand \<in> set (sortedCandidates (collectCandidates h G))"
  shows "goodCandidate h G cand \<and> c_size cand \<ge> minBundleSize"
  using assms collectCandidates_good [OF assms(1), of h]
  by (auto simp: sortedCandidates_def)


lemma bundles_remove [simp]: "bundles (removeAssetGraphFromBundle h G a b) = bundles G"
  by (simp add: removeAssetGraphFromBundle_def)

lemma bundles_add [simp]: "bundles (addAssetGraphToBundle h G a b) = bundles G"
  by (simp add: addAssetGraphToBundle_def)

lemma bundles_addToGroup [simp]: "bundles (addBundleToBundleGroup G b gr) = bundles G"
  by (simp add: addBundleToBundleGroup_def)

lemma bundles_fold_dedupAsset [simp]: "bundles (fold (deduplicateAsset h b) as G) = bundles G"
  by (induction as arbitrary: G) (simp_all add: deduplicateAsset_def)

lemma bundles_fold_dedupNode [simp]: "bundles (fold (deduplicateNode h b) ns G) = bundles G"
proof (induction ns arbitrary: G)
  case Nil
  show ?case by simp
next
  case (Cons n ns)
  then show ?case by (cases n) (simp_all add: deduplicateNode_def)
qed

lemma bundles_dedup [simp]: "bundles (deduplicateBundle h G b) = bundles G"
  by (simp add: deduplicateBundle_def)

lemma bundles_fold_remove [simp]:
  "bundles (fold (\<lambda>bundle G1. removeAssetGraphFromBundle h G1 a bundle) bs G) = bundles G"
  by (induction bs arbitrary: G) simp_all

lemma groupBundles_fold_remove [simp]:
  "groupBundles (fold (\<lambda>bundle G1. removeAssetGraphFromBundle h G1 a bundle) bs G) = groupBundles G"
  by (induction bs arbitrary: G) simp_all

lemma bundles_fold_moveAsset [simp]:
  "bundles (fold (moveAsset h srcs shared) as G) = bundles G"
  by (induction as arbitrary: G) (simp_all add: moveAsset_def)

lemma groupBundles_fold_moveAsset [simp]:
  "groupBundles (fold (moveAsset h srcs shared) as G) = groupBundles G"
  by (induction as arbitrary: G) (simp_all add: moveAsset_def)

lemma bundles_fold_addToGroup [simp]:
  "bundles (fold (\<lambda>gr G1. addBundleToBundleGroup G1 b gr) gs G) = bundles G"
  by (induction gs arbitrary: G) simp_all

lemma groupBundles_fold_groups:
  assumes "\<And>G gr. groupBundles (F gr G) = (groupBundles G)(gr := fold setAdd bs (groupBundles G gr))"
  shows "groupBundles (fold F gs G) gr =
           (if gr \<in> set gs then fold setAdd bs (groupBundles G gr) else groupBundles G gr)"
proof (induction gs arbitrary: G)
  case Nil
  show ?case by simp
next
  case (Cons g gs)
  show ?case
    using Cons.IH [of "F g G"] by (simp add: assms fold_setAdd_idem)
qed

lemma groupBundles_fold_addToGroup:
  "groupBundles (fold (\<lambda>gr G1. addBundleToBundleGroup G1 b gr) gs G) gr =
     (if gr \<in> set gs then setAdd b (groupBundles G gr) else groupBundles G gr)"
  using groupBundles_fold_groups
    [where F = "\<lambda>gr G1. addBundleToBundleGroup G1 b gr" and bs = "[b]" and gs = gs and G = G and gr = gr]
  by (simp add: addBundleToBundleGroup_def)

text \<open>What a candidate does to the bundles and to the membership relation.\<close>

lemma extractCandidate_cases:
  "extractCandidate h cand G = Inr G \<or>
   (c_sourceBundles cand = [] \<and> extractCandidate h cand G = Inl TypeError) \<or>
   (c_sourceBundles cand \<noteq> [] \<and>
    (\<forall>gr \<in> set (connectedBundleGroups G (c_sourceBundles cand)).
        length (groupBundles G gr) < maxParallelRequests) \<and>
    (\<exists>G'. extractCandidate h cand G = Inr G' \<and>
       bundles G' = bundles G @
         [makeBundle h (sharedBundleOpts h (c_sourceBundles cand) (hd (c_sourceBundles cand)))] \<and>
       (\<forall>gr. groupBundles G' gr =
          (if gr \<in> set (connectedBundleGroups G (c_sourceBundles cand))
           then setAdd (makeBundle h (sharedBundleOpts h (c_sourceBundles cand)
                                      (hd (c_sourceBundles cand))))
                       (groupBundles G gr)
           else groupBundles G gr))))"
proof (cases "list_ex (\<lambda>group. length (getBundlesInBundleGroup G group) \<ge> maxParallelRequests)
               (connectedBundleGroups G (c_sourceBundles cand))")
  case True
  then show ?thesis by (simp add: extractCandidate_def Let_def)
next
  case False
  then have small: "\<forall>gr \<in> set (connectedBundleGroups G (c_sourceBundles cand)).
        length (groupBundles G gr) < maxParallelRequests"
    by (auto simp: list_ex_iff getBundlesInBundleGroup_def not_le)
  show ?thesis
  proof (cases "c_sourceBundles cand")
    case Nil
    then show ?thesis using False by (simp add: extractCandidate_def Let_def)
  next
    case (Cons firstBundle rest)
    let ?srcs = "firstBundle # rest"
    let ?b = "makeBundle h (sharedBundleOpts h ?srcs firstBundle)"
    let ?G1 = "G\<lparr>bundles := bundles G @ [?b], bundleAssets := (bundleAssets G)(?b := [])\<rparr>"
    let ?G2 = "fold (moveAsset h ?srcs ?b) (c_assets cand) ?G1"
    let ?G3 = "fold (\<lambda>bundleGroup G. addBundleToBundleGroup G ?b bundleGroup)
                  (connectedBundleGroups G ?srcs) ?G2"
    have r: "extractCandidate h cand G = Inr (deduplicateBundle h ?G3 ?b)"
      using False Cons by (simp add: extractCandidate_def Let_def createBundle_def)
    have "bundles (deduplicateBundle h ?G3 ?b) = bundles G @ [?b]" by simp
    moreover have "\<forall>gr. groupBundles (deduplicateBundle h ?G3 ?b) gr =
          (if gr \<in> set (connectedBundleGroups G ?srcs) then setAdd ?b (groupBundles G gr)
           else groupBundles G gr)"
      by (simp add: groupBundles_fold_addToGroup)
    ultimately show ?thesis using r small Cons by simp
  qed
qed

lemma extractCandidate_budget:
  assumes "extractCandidate h cand G = Inr G'"
    and "length (groupBundles G gr) \<le> maxParallelRequests"
  shows "length (groupBundles G' gr) \<le> maxParallelRequests"
proof -
  let ?b = "makeBundle h (sharedBundleOpts h (c_sourceBundles cand) (hd (c_sourceBundles cand)))"
  let ?gs = "connectedBundleGroups G (c_sourceBundles cand)"
  from extractCandidate_cases [of h cand G] assms(1)
  consider "G' = G"
    | "(\<forall>gr \<in> set ?gs. length (groupBundles G gr) < maxParallelRequests) \<and>
       (\<forall>gr. groupBundles G' gr =
          (if gr \<in> set ?gs then setAdd ?b (groupBundles G gr) else groupBundles G gr))"
    by auto
  then show ?thesis
  proof cases
    case 1
    then show ?thesis using assms(2) by simp
  next
    case 2
    show ?thesis
    proof (cases "gr \<in> set ?gs")
      case True
      then have "length (groupBundles G gr) < maxParallelRequests" using 2 by blast
      moreover have "groupBundles G' gr = setAdd ?b (groupBundles G gr)" using 2 True by simp
      ultimately show ?thesis using length_setAdd [of ?b "groupBundles G gr"] by simp
    next
      case False
      then show ?thesis using 2 assms(2) by simp
    qed
  qed
qed

lemma extractAll_budget:
  "extractAll h cands G = Inr G' \<Longrightarrow> length (groupBundles G gr) \<le> maxParallelRequests \<Longrightarrow>
     length (groupBundles G' gr) \<le> maxParallelRequests"
proof (induction cands arbitrary: G)
  case Nil
  then show ?case by simp
next
  case (Cons cand cands)
  from Cons.prems(1) obtain G1 where
    1: "extractCandidate h cand G = Inr G1" and 2: "extractAll h cands G1 = Inr G'"
    by (auto split: sum.splits)
  have "length (groupBundles G1 gr) \<le> maxParallelRequests"
    using 1 Cons.prems(2) by (rule extractCandidate_budget)
  then show ?case using Cons.IH [OF 2] by simp
qed

lemma extractAll_bundles:
  "extractAll h cands G = Inr G' \<Longrightarrow> b \<in> set (bundles G') \<Longrightarrow> b \<notin> set (bundles G) \<Longrightarrow>
     \<exists>cand \<in> set cands.
        b = makeBundle h (sharedBundleOpts h (c_sourceBundles cand) (hd (c_sourceBundles cand)))"
proof (induction cands arbitrary: G)
  case Nil
  then show ?case by simp
next
  case (Cons cand cands)
  let ?b = "makeBundle h (sharedBundleOpts h (c_sourceBundles cand) (hd (c_sourceBundles cand)))"
  from Cons.prems(1) obtain G1 where
    1: "extractCandidate h cand G = Inr G1" and 2: "extractAll h cands G1 = Inr G'"
    by (auto split: sum.splits)
  have sub: "set (bundles G1) \<subseteq> insert ?b (set (bundles G))"
    using extractCandidate_cases [of h cand G] 1 by auto
  show ?case
  proof (cases "b \<in> set (bundles G1)")
    case True
    then have "b = ?b" using sub Cons.prems(3) by auto
    then show ?thesis by simp
  next
    case False
    then show ?thesis using Cons.IH [OF 2 Cons.prems(2)] by simp
  qed
qed

lemma extractAll_total:
  "\<forall>cand \<in> set cands. c_sourceBundles cand \<noteq> [] \<Longrightarrow> \<exists>G'. extractAll h cands G = Inr G'"
proof (induction cands arbitrary: G)
  case Nil
  show ?case by simp
next
  case (Cons cand cands)
  have "c_sourceBundles cand \<noteq> []" using Cons.prems by simp
  then obtain G1 where 1: "extractCandidate h cand G = Inr G1"
    using extractCandidate_cases [of h cand G] by auto
  obtain G' where "extractAll h cands G1 = Inr G'"
    using Cons.IH [of G1] Cons.prems by auto
  then show ?case using 1 by simp
qed


text \<open>
  Claim C3. On a graph whose bundles are distinct, the third pass ends without error, and
  every bundle it adds is the shared bundle of a processed candidate whose accumulated
  size (the sum of the total sizes of its assets) is at least \<open>minBundleSize\<close> and whose
  set of source bundles has more than \<open>minBundles\<close> members, each a non-entry, splittable
  bundle that contains an asset of the candidate without having it as its main entry.
\<close>

theorem shared_bundles_meet_thresholds:
  assumes "distinct (bundles G)"
  shows "\<exists>G'. extractSharedBundles h G = Inr G' \<and>
           (\<forall>sharedBundle \<in> set (bundles G') - set (bundles G).
              \<exists>cand \<in> set (sortedCandidates (collectCandidates h G)).
                sharedBundle = makeBundle h (sharedBundleOpts h (c_sourceBundles cand)
                                              (hd (c_sourceBundles cand))) \<and>
                c_size cand = sum_list (map (getTotalSize h) (c_assets cand)) \<and>
                c_size cand \<ge> minBundleSize \<and>
                card (set (c_sourceBundles cand)) > minBundles \<and>
                (\<forall>b \<in> set (c_sourceBundles cand).
                   \<not> b_isEntry b \<and> b_isSplittable b \<and>
                   (\<exists>a \<in> set (c_assets cand). b \<in> set (containingBundlesOf G a))))"
proof -
  let ?cands = "sortedCandidates (collectCandidates h G)"
  have good: "\<forall>cand \<in> set ?cands. goodCandidate h G cand \<and> c_size cand \<ge> minBundleSize"
    using sortedCandidates_good [OF assms] by blast
  then have "\<forall>cand \<in> set ?cands. c_sourceBundles cand \<noteq> []"
    by (auto simp: goodCandidate_def)
  then obtain G' where r: "extractAll h ?cands G = Inr G'"
    using extractAll_total by blast
  have "\<exists>cand \<in> set ?cands.
          sharedBundle = makeBundle h (sharedBundleOpts h (c_sourceBundles cand)
                                        (hd (c_sourceBundles cand))) \<and>
          c_size cand = sum_list (map (getTotalSize h) (c_assets cand)) \<and>
          c_size cand \<ge> minBundleSize \<and>
          card (set (c_sourceBundles cand)) > minBundles \<and>
          (\<forall>b \<in> set (c_sourceBundles cand).
             \<not> b_isEntry b \<and> b_isSplittable b \<and>
             (\<exists>a \<in> set (c_assets cand). b \<in> set (containingBundlesOf G a)))"
    if new: "sharedBundle \<in> set (bundles G') - set (bundles G)" for sharedBundle
  proof -
    from new obtain cand where c: "cand \<in> set ?cands"
      and b: "sharedBundle = makeBundle h (sharedBundleOpts h (c_sourceBundles cand)
                                            (hd (c_sourceBundles cand)))"
      using extractAll_bundles [OF r, of sharedBundle] by auto
    have g: "goodCandidate h G cand" and sz: "c_size cand \<ge> minBundleSize"
      using good c by auto
    have "card (set (c_sourceBundles cand)) = length (c_sourceBundles cand)"
      using g by (simp add: goodCandidate_def distinct_card)
    then have card: "card (set (c_sourceBundles cand)) > minBundles"
      using g by (simp add: goodCandidate_def)
    have src: "\<forall>b \<in> set (c_sourceBundles cand).
             \<not> b_isEntry b \<and> b_isSplittable b \<and>
             (\<exists>a \<in> set (c_assets cand). b \<in> set (containingBundlesOf G a))"
      using g by (auto simp: goodCandidate_def list_all_iff list_ex_iff dest: containingBundlesOf_flags)
    have "c_size cand = sum_list (map (getTotalSize h) (c_assets cand))"
      using g by (simp add: goodCandidate_def)
    then show ?thesis using c b sz card src by blast
  qed
  then show ?thesis using r by (auto simp: extractSharedBundles_def)
qed

lemma extract_scenario_bundles:
  "map_sum id bundles (extractSharedBundles extractHost extractGraph) =
     Inr [jsBundle ''E1'' (Some (jsAsset ''e1'')), jsBundle ''E2'' (Some (jsAsset ''e2'')), bigBundle]"
  by (simp add: extractSharedBundles_def collectCandidates_def collectCandidate_def
      containingBundlesOf_def candidateId_def
      findBundlesWithAsset_def hasAsset_def getMainEntry_def minBundles_def newSet_def setAdd_def
      sortedCandidates_def minBundleSize_def extractCandidate_def connectedBundleGroups_def
      getBundleGroupsContainingBundle_def getBundlesInBundleGroup_def maxParallelRequests_def
      createBundle_def makeBundle_def sharedBundleOpts_def Let_def moveAsset_def
      extract_scenario_defs scenario_defs)

theorem shared_bundles_meet_thresholds_witness:
  "distinct (bundles extractGraph) \<and>
   (\<exists>G'. extractSharedBundles extractHost extractGraph = Inr G' \<and>
      bigBundle \<in> set (bundles G') - set (bundles extractGraph)) \<and>
   (\<exists>cand \<in> set (sortedCandidates (collectCandidates extractHost extractGraph)).
      bigBundle = makeBundle extractHost (sharedBundleOpts extractHost (c_sourceBundles cand)
                                           (hd (c_sourceBundles cand))) \<and>
      c_size cand \<ge> minBundleSize \<and> card (set (c_sourceBundles cand)) > minBundles)"
proof -
  have d: "distinct (bundles extractGraph)"
    by (simp add: extract_scenario_defs scenario_defs)
  from shared_bundles_meet_thresholds [OF d, of extractHost] obtain G' where
    r: "extractSharedBundles extractHost extractGraph = Inr G'"
    and all: "\<forall>sharedBundle \<in> set (bundles G') - set (bundles extractGraph).
              \<exists>cand \<in> set (sortedCandidates (collectCandidates extractHost extractGraph)).
                sharedBundle = makeBundle extractHost (sharedBundleOpts extractHost (c_sourceBundles cand)
                                              (hd (c_sourceBundles cand))) \<and>
                c_size cand = sum_list (map (getTotalSize extractHost) (c_assets cand)) \<and>
                c_size cand \<ge> minBundleSize \<and>
                card (set (c_sourceBundles cand)) > minBundles \<and>
                (\<forall>b \<in> set (c_sourceBundles cand).
                   \<not> b_isEntry b \<and> b_isSplittable b \<and>
                   (\<exists>a \<in> set (c_assets cand). b \<in> set (containingBundlesOf extractGraph a)))"
    by blast
  have "bundles G' = [jsBundle ''E1'' (Some (jsAsset ''e1'')), jsBundle ''E2'' (Some (jsAsset ''e2'')), bigBundle]"
    using extract_scenario_bundles r by simp
  then have new: "bigBundle \<in> set (bundles G') - set (bundles extractGraph)"
    by (simp add: extract_scenario_defs scenario_defs)
  from all new have "\<exists>cand \<in> set (sortedCandidates (collectCandidates extractHost extractGraph)).
      bigBundle = makeBundle extractHost (sharedBundleOpts extractHost (c_sourceBundles cand)
                                           (hd (c_sourceBundles cand))) \<and>
      c_size cand \<ge> minBundleSize \<and> card (set (c_sourceBundles cand)) > minBundles"
    by blast
  then show ?thesis using d r new by blast
qed

subsection \<open>The request budget\<close>

lemma groupBundles_fold_addBundles:
  "groupBundles (fold (\<lambda>b G2. addBundleToBundleGroup G2 b gr) bs G) =
     (groupBundles G)(gr := fold setAdd bs (groupBundles G gr))"
  by (induction bs arbitrary: G) (simp_all add: addBundleToBundleGroup_def)

lemma hoistCandidate_groups:
  "groupBundles (hoistCandidate h bundle siblings mainEntry candidate G) gr =
     (if gr \<in> set (getBundleGroupsContainingBundle G candidate) \<and>
         list_all (\<lambda>group. length (getBundlesInBundleGroup G group) < maxParallelRequests)
                  (getBundleGroupsContainingBundle G candidate)
      then fold setAdd (bundle # siblings) (groupBundles G gr)
      else groupBundles G gr)"
proof -
  let ?F = "\<lambda>bundleGroup G1.
              fold (\<lambda>bundleToAdd G2. addBundleToBundleGroup G2 bundleToAdd bundleGroup)
                   (bundle # siblings) G1"
  have F: "\<And>G gr. groupBundles (?F gr G) =
             (groupBundles G)(gr := fold setAdd (bundle # siblings) (groupBundles G gr))"
    by (rule groupBundles_fold_addBundles)
  have "groupBundles (fold ?F gs (removeAssetGraphFromBundle h G mainEntry candidate)) gr =
          (if gr \<in> set gs then fold setAdd (bundle # siblings) (groupBundles G gr)
           else groupBundles G gr)" for gs
    using groupBundles_fold_groups [where F = ?F and bs = "bundle # siblings", OF F,
        of gs "removeAssetGraphFromBundle h G mainEntry candidate" gr]
    by (simp del: fold_Cons)
  then show ?thesis
    by (simp add: hoistCandidate_def Let_def del: fold_Cons)
qed

lemma groupBundles_internalizeNode:
  "internalizeNode h n (G, gs) = Inr (G', gs') \<Longrightarrow> groupBundles G' = groupBundles G"
proof -
  have f: "groupBundles (fold (internalizeIn h d r) bs G0) = groupBundles G0" for d r bs G0
    by (induction bs arbitrary: G0)
       (simp_all add: internalizeIn_def internalizeAsyncDependency_def)
  assume "internalizeNode h n (G, gs) = Inr (G', gs')"
  then show ?thesis
    by (auto simp: internalizeNode_def f split: node.splits if_splits option.splits
        external_resolution.splits)
qed

lemma groupBundles_internalizeNodes:
  "internalizeNodes h ns (G, gs) = Inr (G', gs') \<Longrightarrow> groupBundles G' = groupBundles G"
proof (induction ns arbitrary: G gs)
  case Nil
  then show ?case by simp
next
  case (Cons n ns)
  from Cons.prems obtain G1 gs1 where
    1: "internalizeNode h n (G, gs) = Inr (G1, gs1)"
    and 2: "internalizeNodes h ns (G1, gs1) = Inr (G', gs')"
    by (auto split: sum.splits)
  show ?case using groupBundles_internalizeNode [OF 1] Cons.IH [OF 2] by simp
qed

lemma length_fold_prune:
  "length (groupBundles (fold (pruneBundleGroup h) gs G) gr) \<le> length (groupBundles G gr)"
proof (induction gs arbitrary: G)
  case Nil
  show ?case by simp
next
  case (Cons g gs)
  have "length (groupBundles (pruneBundleGroup h g G) gr) \<le> length (groupBundles G gr)"
    by (simp add: pruneBundleGroup_def removeBundleGroup_def)
  then show ?case using Cons.IH [of "pruneBundleGroup h g G"] by simp
qed

lemma internalizeAsync_groups:
  assumes "internalizeAsync h G = Inr G'"
  shows "length (groupBundles G' gr) \<le> length (groupBundles G gr)"
proof -
  from assms obtain G1 gs where
    1: "internalizeNodes h (preorderAll (graphNodes h G)) (G, []) = Inr (G1, gs)"
    and 2: "G' = fold (pruneBundleGroup h) gs G1"
    by (auto simp: internalizeAsync_def split: sum.splits)
  have "groupBundles G1 = groupBundles G" using 1 by (rule groupBundles_internalizeNodes)
  then show ?thesis using 2 length_fold_prune [of h gs G1 gr] by simp
qed

lemma hoistCandidate_full_unchanged:
  assumes "maxParallelRequests \<le> length (groupBundles G gr)"
  shows "groupBundles (hoistCandidate h b sibs m candidate G) gr = groupBundles G gr"
proof -
  have "\<not> (gr \<in> set (getBundleGroupsContainingBundle G candidate) \<and>
         list_all (\<lambda>group. length (getBundlesInBundleGroup G group) < maxParallelRequests)
                  (getBundleGroupsContainingBundle G candidate))"
    using assms by (fastforce simp: list_all_iff getBundlesInBundleGroup_def not_less)
  then show ?thesis by (simp only: hoistCandidate_groups if_False)
qed

lemma fold_hoistCandidate_full_unchanged:
  "maxParallelRequests \<le> length (groupBundles G gr) \<Longrightarrow>
     groupBundles (fold (hoistCandidate h b sibs m) cands G) gr = groupBundles G gr"
proof (induction cands arbitrary: G)
  case Nil
  show ?case by simp
next
  case (Cons c cands)
  have 1: "groupBundles (hoistCandidate h b sibs m c G) gr = groupBundles G gr"
    using Cons.prems by (rule hoistCandidate_full_unchanged)
  then have "maxParallelRequests \<le> length (groupBundles (hoistCandidate h b sibs m c G) gr)"
    using Cons.prems by simp
  then show ?case using Cons.IH [of "hoistCandidate h b sibs m c G"] 1 by simp
qed

lemma hoistBundle_full_unchanged:
  "maxParallelRequests \<le> length (groupBundles G gr) \<Longrightarrow>
     groupBundles (hoistBundle h b G) gr = groupBundles G gr"
  by (simp add: hoistBundle_def Let_def fold_hoistCandidate_full_unchanged split: option.splits)

lemma fold_hoistBundle_full_unchanged:
  "maxParallelRequests \<le> length (groupBundles G gr) \<Longrightarrow>
     groupBundles (fold (hoistBundle h) bs G) gr = groupBundles G gr"
proof (induction bs arbitrary: G)
  case Nil
  show ?case by simp
next
  case (Cons b bs)
  have 1: "groupBundles (hoistBundle h b G) gr = groupBundles G gr"
    using Cons.prems by (rule hoistBundle_full_unchanged)
  then have "maxParallelRequests \<le> length (groupBundles (hoistBundle h b G) gr)"
    using Cons.prems by simp
  then show ?case using Cons.IH [of "hoistBundle h b G"] 1 by simp
qed

lemma fold_hoistCandidate_either:
  "groupBundles (fold (hoistCandidate h b sibs m) cands G) gr = groupBundles G gr \<or>
   groupBundles (fold (hoistCandidate h b sibs m) cands G) gr =
     fold setAdd (b # sibs) (groupBundles G gr)"
proof (induction cands arbitrary: G)
  case Nil
  show ?case by simp
next
  case (Cons c cands)
  let ?G1 = "hoistCandidate h b sibs m c G"
  have 1: "groupBundles ?G1 gr = groupBundles G gr \<or>
           groupBundles ?G1 gr = fold setAdd (b # sibs) (groupBundles G gr)"
    by (simp add: hoistCandidate_groups del: fold_Cons)
  have 2: "groupBundles (fold (hoistCandidate h b sibs m) cands ?G1) gr = groupBundles ?G1 gr \<or>
           groupBundles (fold (hoistCandidate h b sibs m) cands ?G1) gr =
             fold setAdd (b # sibs) (groupBundles ?G1 gr)"
    by (rule Cons.IH)
  have 3: "fold setAdd (b # sibs) (fold setAdd (b # sibs) (groupBundles G gr)) =
           fold setAdd (b # sibs) (groupBundles G gr)"
    by (rule fold_setAdd_idem)
  have "fold (hoistCandidate h b sibs m) (c # cands) G = fold (hoistCandidate h b sibs m) cands ?G1"
    by simp
  then show ?case using 1 2 3 by metis
qed

lemma hoistBundle_either:
  "groupBundles (hoistBundle h b G) gr = groupBundles G gr \<or>
   groupBundles (hoistBundle h b G) gr =
     fold setAdd (b # filter (\<lambda>sibling. \<not> b_isInline sibling) (getSiblingBundles G b))
          (groupBundles G gr)"
proof (cases "b_isInline b \<or> \<not> b_isSplittable b")
  case True
  then show ?thesis by (simp add: hoistBundle_def)
next
  case False
  show ?thesis
  proof (cases "getMainEntry b")
    case None
    then show ?thesis using False by (simp add: hoistBundle_def)
  next
    case (Some m)
    have "hoistBundle h b G =
            fold (hoistCandidate h b (filter (\<lambda>sibling. \<not> b_isInline sibling) (getSiblingBundles G b)) m)
                 (filter (\<lambda>containingBundle.
                                b_id containingBundle \<noteq> b_id b \<and>
                                \<not> b_isEntry containingBundle \<and>
                                \<not> b_isInline containingBundle \<and>
                                b_isSplittable containingBundle)
                              (findBundlesWithAsset G m)) G"
      using False Some by (simp add: hoistBundle_def Let_def)
    then show ?thesis
      using fold_hoistCandidate_either
        [of h b "filter (\<lambda>sibling. \<not> b_isInline sibling) (getSiblingBundles G b)" m _ G gr]
      by simp
  qed
qed

text \<open>
  Claim C1 as stated fails for the first pass: the group of \<open>c\<close> has four members, fewer
  than \<open>maxParallelRequests\<close>, and after the pass it has six, because the hoisted bundle
  comes with its sibling.
\<close>

theorem hoist_exceeds_budget_counterexample:
  "length (getBundlesInBundleGroup hoistGraph (groupOf ''c'')) < maxParallelRequests \<and>
   \<not> length (getBundlesInBundleGroup (hoistAll plainHost hoistGraph) (groupOf ''c''))
       \<le> maxParallelRequests"
  by (simp add: hoistAll_def hoistBundle_def hoistCandidate_def getMainEntry_def
      getSiblingBundles_def getBundlesInBundleGroup_def getBundleGroupsContainingBundle_def
      findBundlesWithAsset_def hasAsset_def newSet_def setAdd_def addBundleToBundleGroup_def
      removeAssetGraphFromBundle_def maxParallelRequests_def scenario_defs)

text \<open>
  Claim C1, amended. The deduplication pass changes no membership; the shared-bundle
  pass and the async pass leave every group that had at most \<open>maxParallelRequests\<close>
  bundles with at most that many. The first pass checks the budget only before it adds.
  Handling a candidate changes the groups exactly when every group that contains the
  candidate has fewer than \<open>maxParallelRequests\<close> members: each of these groups then
  receives the hoisted bundle and all the siblings handed in (those it does not hold
  yet), so it ends with its former members, the bundle and the siblings, at most its
  former count plus one plus the number of siblings; every other group, and every group
  when some group of the candidate is full, stays as it is. Visiting a bundle leaves a
  group as it was or adds the bundle and its non-inline siblings to it, and the whole
  first pass never changes a group that already has \<open>maxParallelRequests\<close> members or
  more.
\<close>

theorem budget_checked_before_adding:
  "(extractSharedBundles h G = Inr G1 \<longrightarrow>
      length (getBundlesInBundleGroup G gr) \<le> maxParallelRequests \<longrightarrow>
      length (getBundlesInBundleGroup G1 gr) \<le> maxParallelRequests) \<and>
   getBundlesInBundleGroup (deduplicateAll h G) gr = getBundlesInBundleGroup G gr \<and>
   (internalizeAsync h G = Inr G2 \<longrightarrow>
      length (getBundlesInBundleGroup G2 gr) \<le> length (getBundlesInBundleGroup G gr)) \<and>
   getBundlesInBundleGroup (hoistCandidate h bundle siblings mainEntry candidate G) gr =
     (if gr \<in> set (getBundleGroupsContainingBundle G candidate) \<and>
         (\<forall>group \<in> set (getBundleGroupsContainingBundle G candidate).
            length (getBundlesInBundleGroup G group) < maxParallelRequests)
      then fold setAdd (bundle # siblings) (getBundlesInBundleGroup G gr)
      else getBundlesInBundleGroup G gr) \<and>
   set (fold setAdd (bundle # siblings) (getBundlesInBundleGroup G gr)) =
     insert bundle (set siblings \<union> set (getBundlesInBundleGroup G gr)) \<and>
   length (fold setAdd (bundle # siblings) (getBundlesInBundleGroup G gr))
     \<le> length (getBundlesInBundleGroup G gr) + 1 + length siblings \<and>
   (getBundlesInBundleGroup (hoistBundle h bundle G) gr = getBundlesInBundleGroup G gr \<or>
    getBundlesInBundleGroup (hoistBundle h bundle G) gr =
      fold setAdd
        (bundle # filter (\<lambda>sibling. \<not> b_isInline sibling) (getSiblingBundles G bundle))
        (getBundlesInBundleGroup G gr)) \<and>
   (maxParallelRequests \<le> length (getBundlesInBundleGroup G gr) \<longrightarrow>
      getBundlesInBundleGroup (hoistAll h G) gr = getBundlesInBundleGroup G gr)"
proof (intro conjI impI)
  assume "extractSharedBundles h G = Inr G1"
    and "length (getBundlesInBundleGroup G gr) \<le> maxParallelRequests"
  then show "length (getBundlesInBundleGroup G1 gr) \<le> maxParallelRequests"
    using extractAll_budget [of h "sortedCandidates (collectCandidates h G)" G G1 gr]
    by (simp add: extractSharedBundles_def getBundlesInBundleGroup_def)
next
  show "getBundlesInBundleGroup (deduplicateAll h G) gr = getBundlesInBundleGroup G gr"
    by (simp add: getBundlesInBundleGroup_def)
next
  assume "internalizeAsync h G = Inr G2"
  then show "length (getBundlesInBundleGroup G2 gr) \<le> length (getBundlesInBundleGroup G gr)"
    by (simp add: getBundlesInBundleGroup_def internalizeAsync_groups)
next
  show "getBundlesInBundleGroup (hoistCandidate h bundle siblings mainEntry candidate G) gr =
     (if gr \<in> set (getBundleGroupsContainingBundle G candidate) \<and>
         (\<forall>group \<in> set (getBundleGroupsContainingBundle G candidate).
            length (getBundlesInBundleGroup G group) < maxParallelRequests)
      then fold setAdd (bundle # siblings) (getBundlesInBundleGroup G gr)
      else getBundlesInBundleGroup G gr)"
    by (simp add: getBundlesInBundleGroup_def hoistCandidate_groups list_all_iff del: fold_Cons)
next
  show "set (fold setAdd (bundle # siblings) (getBundlesInBundleGroup G gr)) =
     insert bundle (set siblings \<union> set (getBundlesInBundleGroup G gr))"
    by (simp add: set_fold_setAdd del: fold_Cons)
next
  have "length (fold setAdd (bundle # siblings) (getBundlesInBundleGroup G gr))
          \<le> length (getBundlesInBundleGroup G gr) + length (bundle # siblings)"
    by (rule length_fold_setAdd)
  then show "length (fold setAdd (bundle # siblings) (getBundlesInBundleGroup G gr))
     \<le> length (getBundlesInBundleGroup G gr) + 1 + length siblings"
    by (simp del: fold_Cons)
next
  show "getBundlesInBundleGroup (hoistBundle h bundle G) gr = getBundlesInBundleGroup G gr \<or>
    getBundlesInBundleGroup (hoistBundle h bundle G) gr =
      fold setAdd
        (bundle # filter (\<lambda>sibling. \<not> b_isInline sibling) (getSiblingBundles G bundle))
        (getBundlesInBundleGroup G gr)"
    unfolding getBundlesInBundleGroup_def by (rule hoistBundle_either)
next
  assume "maxParallelRequests \<le> length (getBundlesInBundleGroup G gr)"
  then show "getBundlesInBundleGroup (hoistAll h G) gr = getBundlesInBundleGroup G gr"
    by (simp add: getBundlesInBundleGroup_def hoistAll_def fold_hoistBundle_full_unchanged)
qed


theorem budget_checked_before_adding_witness:
  "(\<exists>G1. extractSharedBundles extractHost extractGraph = Inr G1 \<and>
      length (getBundlesInBundleGroup extractGraph (groupOf ''e1'')) \<le> maxParallelRequests \<and>
      length (getBundlesInBundleGroup G1 (groupOf ''e1'')) \<le> maxParallelRequests) \<and>
   (\<exists>G2. internalizeAsync asyncTraversalHost asyncGraph = Inr G2 \<and>
      length (getBundlesInBundleGroup G2 (groupOf ''x''))
        \<le> length (getBundlesInBundleGroup asyncGraph (groupOf ''x''))) \<and>
   getBundleGroupsContainingBundle hoistGraph (jsBundle ''C'' (Some (jsAsset ''c''))) =
     [groupOf ''c''] \<and>
   length (getBundlesInBundleGroup hoistGraph (groupOf ''c'')) < maxParallelRequests \<and>
   getBundlesInBundleGroup
     (hoistCandidate plainHost (jsBundle ''A'' (Some (jsAsset ''a''))) [jsBundle ''S'' None]
        (jsAsset ''a'') (jsBundle ''C'' (Some (jsAsset ''c''))) hoistGraph) (groupOf ''c'') =
     [jsBundle ''C'' (Some (jsAsset ''c'')), jsBundle ''P'' None, jsBundle ''Q'' None,
      jsBundle ''R'' None, jsBundle ''A'' (Some (jsAsset ''a'')), jsBundle ''S'' None] \<and>
   jsBundle ''C'' (Some (jsAsset ''c'')) \<in> set (findBundlesWithAsset blockedGraph (jsAsset ''a'')) \<and>
   maxParallelRequests \<le> length (getBundlesInBundleGroup blockedGraph (groupOf ''c'')) \<and>
   getBundlesInBundleGroup (hoistAll plainHost blockedGraph) (groupOf ''c'') =
     [jsBundle ''C'' (Some (jsAsset ''c'')), jsBundle ''P'' None, jsBundle ''Q'' None,
      jsBundle ''R'' None, jsBundle ''T'' None]"
proof -
  obtain G1 where g1: "extractSharedBundles extractHost extractGraph = Inr G1"
    using extract_scenario_bundles
    by (cases "extractSharedBundles extractHost extractGraph") simp_all
  have le: "length (getBundlesInBundleGroup extractGraph (groupOf ''e1'')) \<le> maxParallelRequests"
    by (simp add: getBundlesInBundleGroup_def maxParallelRequests_def extract_scenario_defs)
  have 1: "length (getBundlesInBundleGroup G1 (groupOf ''e1'')) \<le> maxParallelRequests"
    using budget_checked_before_adding [of extractHost extractGraph G1 "groupOf ''e1''"] g1 le
    by blast
  have "\<exists>G2. internalizeAsync asyncTraversalHost asyncGraph = Inr G2"
    by (simp add: internalizeAsync_def internalizeNode_def preorderAll_def
        asyncTraversalHost_def optimize_scenario_defs scenario_defs)
  then obtain G2 where g2: "internalizeAsync asyncTraversalHost asyncGraph = Inr G2" by blast
  have 2: "length (getBundlesInBundleGroup G2 (groupOf ''x''))
        \<le> length (getBundlesInBundleGroup asyncGraph (groupOf ''x''))"
    using budget_checked_before_adding [of asyncTraversalHost asyncGraph _ "groupOf ''x''" G2] g2
    by blast
  have gs: "getBundleGroupsContainingBundle hoistGraph (jsBundle ''C'' (Some (jsAsset ''c''))) =
              [groupOf ''c'']"
    by (simp add: getBundleGroupsContainingBundle_def scenario_defs)
  have old: "getBundlesInBundleGroup hoistGraph (groupOf ''c'') =
               [jsBundle ''C'' (Some (jsAsset ''c'')), jsBundle ''P'' None, jsBundle ''Q'' None,
                jsBundle ''R'' None]"
    by (simp add: getBundlesInBundleGroup_def scenario_defs)
  have c1: "groupOf ''c'' \<in> set (getBundleGroupsContainingBundle hoistGraph (jsBundle ''C'' (Some (jsAsset ''c''))))"
    by (simp add: gs)
  have c2: "\<forall>group \<in> set (getBundleGroupsContainingBundle hoistGraph (jsBundle ''C'' (Some (jsAsset ''c'')))).
      length (getBundlesInBundleGroup hoistGraph group) < maxParallelRequests"
    by (simp add: gs old maxParallelRequests_def)
  have added: "fold setAdd [jsBundle ''A'' (Some (jsAsset ''a'')), jsBundle ''S'' None]
                 [jsBundle ''C'' (Some (jsAsset ''c'')), jsBundle ''P'' None, jsBundle ''Q'' None,
                  jsBundle ''R'' None] =
               [jsBundle ''C'' (Some (jsAsset ''c'')), jsBundle ''P'' None, jsBundle ''Q'' None,
                jsBundle ''R'' None, jsBundle ''A'' (Some (jsAsset ''a'')), jsBundle ''S'' None]"
    by (simp add: setAdd_def scenario_defs)
  have 3: "getBundlesInBundleGroup
     (hoistCandidate plainHost (jsBundle ''A'' (Some (jsAsset ''a''))) [jsBundle ''S'' None]
        (jsAsset ''a'') (jsBundle ''C'' (Some (jsAsset ''c''))) hoistGraph) (groupOf ''c'') =
     fold setAdd [jsBundle ''A'' (Some (jsAsset ''a'')), jsBundle ''S'' None]
       (getBundlesInBundleGroup hoistGraph (groupOf ''c''))"
    using budget_checked_before_adding [of plainHost hoistGraph _ "groupOf ''c''" _
        "jsBundle ''A'' (Some (jsAsset ''a''))" "[jsBundle ''S'' None]" "jsAsset ''a''"
        "jsBundle ''C'' (Some (jsAsset ''c''))",
        THEN conjunct2, THEN conjunct2, THEN conjunct2, THEN conjunct1] c1 c2
    by (simp del: fold_Cons)
  have 4: "getBundlesInBundleGroup
     (hoistCandidate plainHost (jsBundle ''A'' (Some (jsAsset ''a''))) [jsBundle ''S'' None]
        (jsAsset ''a'') (jsBundle ''C'' (Some (jsAsset ''c''))) hoistGraph) (groupOf ''c'') =
     [jsBundle ''C'' (Some (jsAsset ''c'')), jsBundle ''P'' None, jsBundle ''Q'' None,
      jsBundle ''R'' None, jsBundle ''A'' (Some (jsAsset ''a'')), jsBundle ''S'' None]"
    using 3 by (simp only: old added)
  have in_c: "jsBundle ''C'' (Some (jsAsset ''c'')) \<in> set (findBundlesWithAsset blockedGraph (jsAsset ''a''))"
    by (simp add: findBundlesWithAsset_def hasAsset_def blockedGraph_def scenario_defs)
  have old5: "getBundlesInBundleGroup blockedGraph (groupOf ''c'') =
     [jsBundle ''C'' (Some (jsAsset ''c'')), jsBundle ''P'' None, jsBundle ''Q'' None,
      jsBundle ''R'' None, jsBundle ''T'' None]"
    by (simp add: getBundlesInBundleGroup_def blockedGraph_def scenario_defs)
  have full: "maxParallelRequests \<le> length (getBundlesInBundleGroup blockedGraph (groupOf ''c''))"
    by (simp add: old5 maxParallelRequests_def)
  have 5: "getBundlesInBundleGroup (hoistAll plainHost blockedGraph) (groupOf ''c'') =
             getBundlesInBundleGroup blockedGraph (groupOf ''c'')"
    using budget_checked_before_adding [of plainHost blockedGraph _ "groupOf ''c''"] full by blast
  have 6: "getBundlesInBundleGroup (hoistAll plainHost blockedGraph) (groupOf ''c'') =
     [jsBundle ''C'' (Some (jsAsset ''c'')), jsBundle ''P'' None, jsBundle ''Q'' None,
      jsBundle ''R'' None, jsBundle ''T'' None]"
    using 5 by (simp only: old5)
  have lt: "length (getBundlesInBundleGroup hoistGraph (groupOf ''c'')) < maxParallelRequests"
    by (simp add: old maxParallelRequests_def)
  show ?thesis using g1 le 1 g2 2 gs lt 4 in_c full 6 by blast
qed

lemmas primary_scenario_defs = emptyGraph_def entryDep_def primaryHost_def entryGroup_def
  insideEntry_def afterEntry_def

subsection \<open>The default bundler\<close>

lemma graph_fold_openBundle:
  "bundleGroups (ps_graph (fold (openBundle h d gr m) as s)) = bundleGroups (ps_graph s) \<and>
   bundles (ps_graph (fold (openBundle h d gr m) as s)) =
     bundles (ps_graph s) @ map (\<lambda>a. makeBundle h (entryBundleOpts d gr a)) as \<and>
   groupBundles (ps_graph (fold (openBundle h d gr m) as s)) =
     (groupBundles (ps_graph s))
       (gr := fold setAdd (map (\<lambda>a. makeBundle h (entryBundleOpts d gr a)) as)
                   (groupBundles (ps_graph s) gr))"
proof (induction as arbitrary: s)
  case Nil
  show ?case by simp
next
  case (Cons a as)
  let ?s1 = "openBundle h d gr m a s"
  have 1: "bundleGroups (ps_graph ?s1) = bundleGroups (ps_graph s)"
    and 2: "bundles (ps_graph ?s1) = bundles (ps_graph s) @ [makeBundle h (entryBundleOpts d gr a)]"
    and 3: "groupBundles (ps_graph ?s1) =
              (groupBundles (ps_graph s))
                (gr := setAdd (makeBundle h (entryBundleOpts d gr a)) (groupBundles (ps_graph s) gr))"
    by (simp_all add: openBundle_def createBundle_def addBundleToBundleGroup_def Let_def)
  show ?case using Cons.IH [of ?s1] by (auto simp: 1 2 3 fun_eq_iff)
qed

lemma placeAsset_bundleGroups:
  "placeAsset h d p gr gd m sb same a s = Inr s' \<Longrightarrow>
     bundleGroups (ps_graph s') = bundleGroups (ps_graph s)"
proof -
  have f: "bundleGroups (fold (\<lambda>bundle G. addBundleToBundleGroup G bundle gr) bs G) = bundleGroups G"
    for bs G
    by (induction bs arbitrary: G) (simp_all add: addBundleToBundleGroup_def)
  have g: "bundleGroups (addBundleToBundleGroup G b gr) = bundleGroups G" for G b
    by (simp add: addBundleToBundleGroup_def)
  assume "placeAsset h d p gr gd m sb same a s = Inr s'"
  then show ?thesis
    by (auto simp: placeAsset_def Let_def f g startSiblings_def createBundle_def
        createAssetReference_def
        split: if_splits option.splits prod.splits)
qed

lemma placeAssets_bundleGroups:
  "placeAssets (placeAsset h d p gr gd m sb same) as s = Inr s' \<Longrightarrow>
     bundleGroups (ps_graph s') = bundleGroups (ps_graph s)"
proof (induction as arbitrary: s)
  case Nil
  then show ?case by simp
next
  case (Cons a as)
  from Cons.prems obtain s1 where
    1: "placeAsset h d p gr gd m sb same a s = Inr s1"
    and 2: "placeAssets (placeAsset h d p gr gd m sb same) as s1 = Inr s'"
    by (auto split: sum.splits)
  show ?case using placeAsset_bundleGroups [OF 1] Cons.IH [OF 2] by simp
qed

lemma continueBundleGroup_bundleGroups:
  assumes "continueBundleGroup h n d ctx s = Inr (s', c')"
  shows "bundleGroups (ps_graph s') = bundleGroups (ps_graph s) \<and>
         (\<exists>c. ctx = Some c \<and> ctx_bundleGroup c' = ctx_bundleGroup c)"
  using assms
  by (auto simp: continueBundleGroup_def Let_def placeAssets_bundleGroups
      split: option.splits node.splits sum.splits)

lemma openBundleGroup_result:
  assumes "groupTarget d ctx = Some t"
  shows "\<exists>s'. openBundleGroup h n d ctx s =
                 Inr (s', \<lparr>ctx_bundleGroup = Some \<lparr>bg_dependency = d, bg_target = t\<rparr>,
                           ctx_bundleByType = Some (ps_nextMap s),
                           ctx_bundleGroupDependency = Some d, ctx_parentNode = n\<rparr>) \<and>
           bundleGroups (ps_graph s') =
             bundleGroups (ps_graph s) @ [\<lparr>bg_dependency = d, bg_target = t\<rparr>] \<and>
           bundles (ps_graph s') =
             bundles (ps_graph s) @
               map (\<lambda>a. makeBundle h (entryBundleOpts d \<lparr>bg_dependency = d, bg_target = t\<rparr> a))
                   (getDependencyAssets h d) \<and>
           groupBundles (ps_graph s') \<lparr>bg_dependency = d, bg_target = t\<rparr> =
             newSet (map (\<lambda>a. makeBundle h (entryBundleOpts d \<lparr>bg_dependency = d, bg_target = t\<rparr> a))
                         (getDependencyAssets h d))"
  using assms
  by (simp add: openBundleGroup_def createBundleGroup_def Let_def graph_fold_openBundle newSet_def)


lemma opensBundleGroup_iff:
  "opensBundleGroup d res =
     (\<exists>r. res = Some r \<and> (d_isEntry d \<or> d_isAsync d \<or> a_isIsolated r \<or> a_isInline r))"
  by (cases res) (auto simp: opensBundleGroup_def)

text \<open>
  Claim C2 as stated fails: an async dependency without a resolution opens no bundle
  group. The traversal below visits an entry dependency, an async dependency on \<open>lazy\<close> and
  an async dependency on \<open>missing\<close>, which resolves to nothing; only two groups exist at
  the end, none for \<open>missing\<close>.
\<close>

theorem unresolved_async_opens_no_group_counterexample:
  "d_isAsync (importOf ''missing'') \<and>
   getDependencyResolution primaryHost (importOf ''missing'') = None \<and>
   map_sum id bundleGroups (primaryBundle primaryHost emptyGraph) =
     Inr [entryGroup, groupOf ''lazy'']"
  by (simp add: primaryBundle_def enter_def opensBundleGroup_def openBundleGroup_def
      continueBundleGroup_def groupTarget_def createBundleGroup_def openBundle_def
      createBundle_def makeBundle_def entryBundleOpts_def addBundleToBundleGroup_def
      addAssetGraphToBundle_def attachRoots_def initialState_def setAdd_def Let_def
      primary_scenario_defs scenario_defs)

text \<open>
  Claim C2, amended. Visiting a dependency opens a new bundle group exactly when the
  dependency has a resolution and is an entry, is async, or the resolution is isolated
  or inline: then the visit fails with \<open>MissingTarget\<close> when neither the dependency nor
  the enclosing group gives a target, and otherwise appends one group for the dependency
  and hands it down; in every other case a visit that succeeds adds no group and hands
  down the enclosing one.
\<close>

theorem bundle_group_opened_iff_resolved:
  "((\<exists>r. getDependencyResolution h dependency = Some r \<and>
          (d_isEntry dependency \<or> d_isAsync dependency \<or> a_isIsolated r \<or> a_isInline r)) \<longrightarrow>
      (groupTarget dependency ctx = None \<longrightarrow>
         enter h (DependencyNode dependency) ctx s = Inl MissingTarget) \<and>
      (\<forall>t. groupTarget dependency ctx = Some t \<longrightarrow>
         (\<exists>s' c'. enter h (DependencyNode dependency) ctx s = Inr (s', c') \<and>
            bundleGroups (ps_graph s') =
              bundleGroups (ps_graph s) @ [\<lparr>bg_dependency = dependency, bg_target = t\<rparr>] \<and>
            ctx_bundleGroup c' = Some \<lparr>bg_dependency = dependency, bg_target = t\<rparr>))) \<and>
   (\<not> (\<exists>r. getDependencyResolution h dependency = Some r \<and>
          (d_isEntry dependency \<or> d_isAsync dependency \<or> a_isIsolated r \<or> a_isInline r)) \<longrightarrow>
      (\<forall>s' c'. enter h (DependencyNode dependency) ctx s = Inr (s', c') \<longrightarrow>
         bundleGroups (ps_graph s') = bundleGroups (ps_graph s) \<and>
         (\<exists>c. ctx = Some c \<and> ctx_bundleGroup c' = ctx_bundleGroup c)))"
proof (intro conjI impI allI)
  assume o: "\<exists>r. getDependencyResolution h dependency = Some r \<and>
          (d_isEntry dependency \<or> d_isAsync dependency \<or> a_isIsolated r \<or> a_isInline r)"
    and t: "groupTarget dependency ctx = None"
  from o have "opensBundleGroup dependency (getDependencyResolution h dependency)"
    by (simp add: opensBundleGroup_iff)
  then show "enter h (DependencyNode dependency) ctx s = Inl MissingTarget"
    using t by (simp add: enter_def openBundleGroup_def)
next
  fix t
  assume o: "\<exists>r. getDependencyResolution h dependency = Some r \<and>
          (d_isEntry dependency \<or> d_isAsync dependency \<or> a_isIsolated r \<or> a_isInline r)"
    and t: "groupTarget dependency ctx = Some t"
  from o have "opensBundleGroup dependency (getDependencyResolution h dependency)"
    by (simp add: opensBundleGroup_iff)
  then have "enter h (DependencyNode dependency) ctx s =
               openBundleGroup h (DependencyNode dependency) dependency ctx s"
    by (simp add: enter_def)
  then show "\<exists>s' c'. enter h (DependencyNode dependency) ctx s = Inr (s', c') \<and>
            bundleGroups (ps_graph s') =
              bundleGroups (ps_graph s) @ [\<lparr>bg_dependency = dependency, bg_target = t\<rparr>] \<and>
            ctx_bundleGroup c' = Some \<lparr>bg_dependency = dependency, bg_target = t\<rparr>"
    using openBundleGroup_result [OF t, of h "DependencyNode dependency" s] by auto
next
  fix s' c'
  assume o: "\<not> (\<exists>r. getDependencyResolution h dependency = Some r \<and>
          (d_isEntry dependency \<or> d_isAsync dependency \<or> a_isIsolated r \<or> a_isInline r))"
    and r: "enter h (DependencyNode dependency) ctx s = Inr (s', c')"
  from o have "\<not> opensBundleGroup dependency (getDependencyResolution h dependency)"
    by (simp add: opensBundleGroup_iff)
  then have c: "continueBundleGroup h (DependencyNode dependency) dependency ctx s = Inr (s', c')"
    using r by (simp add: enter_def)
  show "bundleGroups (ps_graph s') = bundleGroups (ps_graph s)"
    using continueBundleGroup_bundleGroups [OF c] by simp
  show "\<exists>c. ctx = Some c \<and> ctx_bundleGroup c' = ctx_bundleGroup c"
    using continueBundleGroup_bundleGroups [OF c] by simp
qed


theorem bundle_group_opened_iff_resolved_witness:
  "(\<exists>r. getDependencyResolution primaryHost entryDep = Some r \<and>
        (d_isEntry entryDep \<or> d_isAsync entryDep \<or> a_isIsolated r \<or> a_isInline r)) \<and>
   groupTarget entryDep None = Some ''dist'' \<and>
   (\<exists>s' c'. enter primaryHost (DependencyNode entryDep) None (initialState emptyGraph) = Inr (s', c') \<and>
      bundleGroups (ps_graph s') = [entryGroup] \<and> ctx_bundleGroup c' = Some entryGroup) \<and>
   (\<exists>r. getDependencyResolution primaryHost (importOf ''lazy'') = Some r \<and>
        (d_isEntry (importOf ''lazy'') \<or> d_isAsync (importOf ''lazy'') \<or> a_isIsolated r \<or> a_isInline r)) \<and>
   groupTarget (importOf ''lazy'') None = None \<and>
   enter primaryHost (DependencyNode (importOf ''lazy'')) None (initialState emptyGraph) =
     Inl MissingTarget \<and>
   \<not> (\<exists>r. getDependencyResolution primaryHost (importOf ''missing'') = Some r \<and>
        (d_isEntry (importOf ''missing'') \<or> d_isAsync (importOf ''missing'') \<or>
         a_isIsolated r \<or> a_isInline r)) \<and>
   enter primaryHost (DependencyNode (importOf ''missing'')) (Some insideEntry) afterEntry =
     Inr (afterEntry, insideEntry\<lparr>ctx_parentNode := DependencyNode (importOf ''missing'')\<rparr>)"
proof -
  have o1: "\<exists>r. getDependencyResolution primaryHost entryDep = Some r \<and>
        (d_isEntry entryDep \<or> d_isAsync entryDep \<or> a_isIsolated r \<or> a_isInline r)"
    by (simp add: primary_scenario_defs scenario_defs)
  have t1: "groupTarget entryDep None = Some ''dist''"
    by (simp add: groupTarget_def entryDep_def)
  have 1: "\<exists>s' c'. enter primaryHost (DependencyNode entryDep) None (initialState emptyGraph) = Inr (s', c') \<and>
      bundleGroups (ps_graph s') = [entryGroup] \<and> ctx_bundleGroup c' = Some entryGroup"
    using bundle_group_opened_iff_resolved [of primaryHost entryDep None "initialState emptyGraph"]
      o1 t1
    by (simp add: initialState_def emptyGraph_def entryGroup_def)
  have o2: "\<exists>r. getDependencyResolution primaryHost (importOf ''lazy'') = Some r \<and>
        (d_isEntry (importOf ''lazy'') \<or> d_isAsync (importOf ''lazy'') \<or> a_isIsolated r \<or> a_isInline r)"
    by (simp add: primary_scenario_defs scenario_defs)
  have t2: "groupTarget (importOf ''lazy'') None = None"
    by (simp add: groupTarget_def importOf_def)
  have 2: "enter primaryHost (DependencyNode (importOf ''lazy'')) None (initialState emptyGraph) =
     Inl MissingTarget"
    using bundle_group_opened_iff_resolved
      [of primaryHost "importOf ''lazy''" None "initialState emptyGraph"] o2 t2
    by blast
  have o3: "\<not> (\<exists>r. getDependencyResolution primaryHost (importOf ''missing'') = Some r \<and>
        (d_isEntry (importOf ''missing'') \<or> d_isAsync (importOf ''missing'') \<or>
         a_isIsolated r \<or> a_isInline r))"
    by (simp add: primary_scenario_defs scenario_defs)
  have r3: "enter primaryHost (DependencyNode (importOf ''missing'')) (Some insideEntry) afterEntry =
     Inr (afterEntry, insideEntry\<lparr>ctx_parentNode := DependencyNode (importOf ''missing'')\<rparr>)"
    by (simp add: enter_def opensBundleGroup_def continueBundleGroup_def
        primary_scenario_defs scenario_defs)
  show ?thesis using o1 t1 1 o2 t2 2 o3 r3 by blast
qed

text \<open>
  Claim C7. When a dependency opens a bundle group, with the target \<open>t\<close> of the dependency
  or, when it has none, of the enclosing group, the visit adds exactly one bundle for each
  asset of the dependency, in order, and makes these bundles the members of the new
  group; the bundle of an asset has the asset as its entry asset, is an entry exactly
  when the dependency is one and the asset is not isolated, is inline exactly when the
  asset is, and has target \<open>t\<close>.
\<close>

theorem opened_group_has_one_bundle_per_asset:
  assumes "opensBundleGroup dependency (getDependencyResolution h dependency)"
    and "d_target dependency = Some t \<or>
         (d_target dependency = None \<and>
          (\<exists>c g. ctx = Some c \<and> ctx_bundleGroup c = Some g \<and> bg_target g = t))"
  shows "\<exists>s' c'. enter h (DependencyNode dependency) ctx s = Inr (s', c') \<and>
           ctx_bundleGroup c' = Some \<lparr>bg_dependency = dependency, bg_target = t\<rparr> \<and>
           bundles (ps_graph s') =
             bundles (ps_graph s) @
               map (\<lambda>asset. makeBundle h
                      (entryBundleOpts dependency \<lparr>bg_dependency = dependency, bg_target = t\<rparr> asset))
                   (getDependencyAssets h dependency) \<and>
           set (getBundlesInBundleGroup (ps_graph s') \<lparr>bg_dependency = dependency, bg_target = t\<rparr>) =
             (\<lambda>asset. makeBundle h
                      (entryBundleOpts dependency \<lparr>bg_dependency = dependency, bg_target = t\<rparr> asset))
               ` set (getDependencyAssets h dependency) \<and>
           (\<forall>asset.
              b_entryAsset (makeBundle h
                 (entryBundleOpts dependency \<lparr>bg_dependency = dependency, bg_target = t\<rparr> asset)) =
                Some asset \<and>
              b_isEntry (makeBundle h
                 (entryBundleOpts dependency \<lparr>bg_dependency = dependency, bg_target = t\<rparr> asset)) =
                (d_isEntry dependency \<and> \<not> a_isIsolated asset) \<and>
              b_isInline (makeBundle h
                 (entryBundleOpts dependency \<lparr>bg_dependency = dependency, bg_target = t\<rparr> asset)) =
                a_isInline asset \<and>
              b_target (makeBundle h
                 (entryBundleOpts dependency \<lparr>bg_dependency = dependency, bg_target = t\<rparr> asset)) = t)"
proof -
  have t: "groupTarget dependency ctx = Some t"
    using assms(2) by (auto simp: groupTarget_def)
  have e: "enter h (DependencyNode dependency) ctx s =
             openBundleGroup h (DependencyNode dependency) dependency ctx s"
    using assms(1) by (simp add: enter_def)
  have attrs: "\<forall>asset.
              b_entryAsset (makeBundle h
                 (entryBundleOpts dependency \<lparr>bg_dependency = dependency, bg_target = t\<rparr> asset)) =
                Some asset \<and>
              b_isEntry (makeBundle h
                 (entryBundleOpts dependency \<lparr>bg_dependency = dependency, bg_target = t\<rparr> asset)) =
                (d_isEntry dependency \<and> \<not> a_isIsolated asset) \<and>
              b_isInline (makeBundle h
                 (entryBundleOpts dependency \<lparr>bg_dependency = dependency, bg_target = t\<rparr> asset)) =
                a_isInline asset \<and>
              b_target (makeBundle h
                 (entryBundleOpts dependency \<lparr>bg_dependency = dependency, bg_target = t\<rparr> asset)) = t"
    by (simp add: makeBundle_def entryBundleOpts_def)
  from openBundleGroup_result [OF t, of h "DependencyNode dependency" s] e attrs
  show ?thesis
    by (auto simp: getBundlesInBundleGroup_def newSet_def set_fold_setAdd)
qed

theorem opened_group_has_one_bundle_per_asset_witness:
  "opensBundleGroup entryDep (getDependencyResolution primaryHost entryDep) \<and>
   d_target entryDep = Some ''dist'' \<and>
   (\<exists>s' c'. enter primaryHost (DependencyNode entryDep) None (initialState emptyGraph) = Inr (s', c') \<and>
      ctx_bundleGroup c' = Some entryGroup \<and>
      bundles (ps_graph s') =
        [\<lparr>b_id = ''index'', b_type = ''js'', b_env = envWeb, b_target = ''dist'',
          b_isEntry = True, b_isInline = False, b_isSplittable = True,
          b_entryAsset = Some (jsAsset ''index''), b_uniqueKey = None\<rparr>])"
proof -
  have o: "opensBundleGroup entryDep (getDependencyResolution primaryHost entryDep)"
    by (simp add: opensBundleGroup_def primary_scenario_defs scenario_defs)
  have t: "d_target entryDep = Some ''dist'' \<or>
         (d_target entryDep = None \<and>
          (\<exists>c g. None = Some c \<and> ctx_bundleGroup c = Some g \<and> bg_target g = ''dist''))"
    by (simp add: entryDep_def)
  have v: "bundles (ps_graph (initialState emptyGraph)) @
             map (\<lambda>asset. makeBundle primaryHost
                    (entryBundleOpts entryDep \<lparr>bg_dependency = entryDep, bg_target = ''dist''\<rparr> asset))
                 (getDependencyAssets primaryHost entryDep) =
           [\<lparr>b_id = ''index'', b_type = ''js'', b_env = envWeb, b_target = ''dist'',
             b_isEntry = True, b_isInline = False, b_isSplittable = True,
             b_entryAsset = Some (jsAsset ''index''), b_uniqueKey = None\<rparr>]"
    by (simp add: makeBundle_def entryBundleOpts_def initialState_def
        primary_scenario_defs scenario_defs)
  from opened_group_has_one_bundle_per_asset [OF o t, of "initialState emptyGraph"]
  obtain s' c' where
    r: "enter primaryHost (DependencyNode entryDep) None (initialState emptyGraph) = Inr (s', c')"
    and g: "ctx_bundleGroup c' = Some \<lparr>bg_dependency = entryDep, bg_target = ''dist''\<rparr>"
    and b: "bundles (ps_graph s') =
              bundles (ps_graph (initialState emptyGraph)) @
                map (\<lambda>asset. makeBundle primaryHost
                       (entryBundleOpts entryDep \<lparr>bg_dependency = entryDep, bg_target = ''dist''\<rparr> asset))
                    (getDependencyAssets primaryHost entryDep)"
    by blast
  have "ctx_bundleGroup c' = Some entryGroup" using g by (simp add: entryGroup_def)
  moreover have "d_target entryDep = Some ''dist''" by (simp add: entryDep_def)
  ultimately show ?thesis using o r b v by auto
qed

lemmas wrap_scenario_defs = wrapDep_def wrapGraph_def wrapHost_def unresolvedTree_def

subsection \<open>The wrap-marking bundler\<close>

lemma traverseWrap_marks:
  "traverseWrap h bnd t ctx meta =
     (\<lambda>a. meta a \<or> (\<exists>d \<in> set (wrappedDependencies (truthy ctx) t).
                        getDependencyResolutionIn h d bnd = Some a))"
  "traverseWrapList h bnd ts ctx meta =
     (\<lambda>a. meta a \<or> (\<exists>d \<in> set (wrappedDependenciesList (truthy ctx) ts).
                        getDependencyResolutionIn h d bnd = Some a))"
proof (induction h bnd t ctx meta and h bnd ts ctx meta
    rule: traverseWrap_traverseWrapList.induct)
  case (1 h bnd n ts ctx meta)
  show ?case
  proof (cases n)
    case (AssetNode x)
    then have w: "wrapNode h bnd n ctx meta = (meta, None)" by (simp add: wrapNode_def)
    show ?thesis using "1.IH"(1) [OF w [symmetric] refl] w AssetNode by simp
  next
    case (DependencyNode d)
    show ?thesis
    proof (cases "truthy ctx \<or> d_shouldWrap d")
      case False
      then have w: "wrapNode h bnd n ctx meta = (meta, None)"
        using DependencyNode by (simp add: wrapNode_def)
      show ?thesis using "1.IH"(1) [OF w [symmetric] refl] w DependencyNode False by simp
    next
      case True
      let ?m = "case getDependencyResolutionIn h d bnd of
                  Some resolved \<Rightarrow> meta(resolved := True) | None \<Rightarrow> meta"
      have w: "wrapNode h bnd n ctx meta = (?m, Some True)"
        using DependencyNode True by (simp add: wrapNode_def split: option.splits)
      have "traverseWrap h bnd (Tree n ts) ctx meta = traverseWrapList h bnd ts (Some True) ?m"
        using w by simp
      also have "\<dots> = (\<lambda>a. ?m a \<or> (\<exists>d \<in> set (wrappedDependenciesList True ts).
                        getDependencyResolutionIn h d bnd = Some a))"
        using "1.IH"(2) [OF w [symmetric] refl] by (simp add: truthy_def)
      also have "\<dots> = (\<lambda>a. meta a \<or> (\<exists>d \<in> set (wrappedDependencies (truthy ctx) (Tree n ts)).
                        getDependencyResolutionIn h d bnd = Some a))"
        using DependencyNode True by (auto simp: fun_eq_iff split: option.splits)
      finally show ?thesis .
    qed
  qed
next
  case (2 h bnd ctx meta)
  show ?case by simp
next
  case (3 h bnd t ts ctx meta)
  have "traverseWrapList h bnd (t # ts) ctx meta =
          traverseWrapList h bnd ts ctx (traverseWrap h bnd t ctx meta)"
    by simp
  also have "\<dots> = (\<lambda>a. traverseWrap h bnd t ctx meta a \<or>
                 (\<exists>d \<in> set (wrappedDependenciesList (truthy ctx) ts).
                    getDependencyResolutionIn h d bnd = Some a))"
    by (rule "3.IH"(2))
  also have "\<dots> = (\<lambda>a. meta a \<or>
                 (\<exists>d \<in> set (wrappedDependenciesList (truthy ctx) (t # ts)).
                    getDependencyResolutionIn h d bnd = Some a))"
    unfolding "3.IH"(1) by (auto simp: fun_eq_iff)
  finally show ?case .
qed

lemma wrappedDependencies_inherited:
  "wrappedDependencies True t = dependenciesOf (preorder t)"
  "wrappedDependenciesList True ts = dependenciesOf (preorderAll ts)"
proof -
  have app: "dependenciesOf (xs @ ys) = dependenciesOf xs @ dependenciesOf ys" for xs ys
    by (induction xs rule: dependenciesOf.induct) simp_all
  have "wrappedDependencies b t = dependenciesOf (preorder t)"
    and "wrappedDependenciesList b ts = dependenciesOf (concat (map preorder ts))" if "b" for b
    using that
  proof (induction b t and b ts rule: wrappedDependencies_wrappedDependenciesList.induct)
    case (1 inherited a ts)
    then show ?case by simp
  next
    case (2 inherited d ts)
    then show ?case by simp
  next
    case (3 inherited)
    show ?case by simp
  next
    case (4 inherited t ts)
    then show ?case by (simp add: app)
  qed
  then show "wrappedDependencies True t = dependenciesOf (preorder t)"
    and "wrappedDependenciesList True ts = dependenciesOf (preorderAll ts)"
    by (simp_all add: preorderAll_def)
qed









text \<open>
  Claim C10. A dependency that carries or inherits the flag and has no resolution in the
  bundle sets no asset flag itself and still hands the flag \<open>true\<close> down: every dependency
  below it marks its own resolved asset, and nothing else is marked.
\<close>

theorem unresolved_dependency_hands_flag_down:
  assumes "truthy ctx \<or> d_shouldWrap dependency"
    and "getDependencyResolutionIn h dependency bnd = None"
  shows "wrapNode h bnd (DependencyNode dependency) ctx meta = (meta, Some True) \<and>
         traverseWrap h bnd (Tree (DependencyNode dependency) ts) ctx meta =
           (\<lambda>a. meta a \<or> (\<exists>d \<in> set (dependenciesOf (preorderAll ts)).
                              getDependencyResolutionIn h d bnd = Some a))"
proof -
  have w: "wrapNode h bnd (DependencyNode dependency) ctx meta = (meta, Some True)"
    using assms by (simp add: wrapNode_def)
  then have "traverseWrap h bnd (Tree (DependencyNode dependency) ts) ctx meta =
               traverseWrapList h bnd ts (Some True) meta"
    by simp
  also have "\<dots> = (\<lambda>a. meta a \<or> (\<exists>d \<in> set (wrappedDependenciesList True ts).
                              getDependencyResolutionIn h d bnd = Some a))"
    by (simp add: traverseWrap_marks(2) truthy_def)
  finally show ?thesis using w by (simp add: wrappedDependencies_inherited(2))
qed

theorem unresolved_dependency_hands_flag_down_witness:
  "d_shouldWrap (wrapDep ''a-x'' True) \<and>
   getDependencyResolutionIn wrapHost (wrapDep ''a-x'' True) (jsBundle ''A'' (Some (jsAsset ''a''))) = None \<and>
   traverseWrap wrapHost (jsBundle ''A'' (Some (jsAsset ''a'')))
     (Tree (DependencyNode (wrapDep ''a-x'' True)) unresolvedTree) None (\<lambda>a. False) (jsAsset ''c'') \<and>
   \<not> traverseWrap wrapHost (jsBundle ''A'' (Some (jsAsset ''a'')))
     (Tree (DependencyNode (wrapDep ''a-x'' True)) unresolvedTree) None (\<lambda>a. False) (jsAsset ''x'')"
proof -
  have f: "truthy None \<or> d_shouldWrap (wrapDep ''a-x'' True)" by (simp add: wrapDep_def)
  have r: "getDependencyResolutionIn wrapHost (wrapDep ''a-x'' True)
             (jsBundle ''A'' (Some (jsAsset ''a''))) = None"
    by (simp add: wrapHost_def plainHost_def wrapDep_def)
  have e: "traverseWrap wrapHost (jsBundle ''A'' (Some (jsAsset ''a'')))
     (Tree (DependencyNode (wrapDep ''a-x'' True)) unresolvedTree) None (\<lambda>a. False) =
     (\<lambda>a. \<exists>d \<in> set (dependenciesOf (preorderAll unresolvedTree)).
              getDependencyResolutionIn wrapHost d (jsBundle ''A'' (Some (jsAsset ''a''))) = Some a)"
    using unresolved_dependency_hands_flag_down [OF f r, of "\<lambda>a. False" unresolvedTree]
    by (simp del: traverseWrap.simps)
  have 1: "traverseWrap wrapHost (jsBundle ''A'' (Some (jsAsset ''a'')))
     (Tree (DependencyNode (wrapDep ''a-x'' True)) unresolvedTree) None (\<lambda>a. False) (jsAsset ''c'')"
    and 2: "\<not> traverseWrap wrapHost (jsBundle ''A'' (Some (jsAsset ''a'')))
     (Tree (DependencyNode (wrapDep ''a-x'' True)) unresolvedTree) None (\<lambda>a. False) (jsAsset ''x'')"
    unfolding e by (simp_all add: preorderAll_def wrap_scenario_defs scenario_defs)
  show ?thesis using f r 1 2 by (simp add: truthy_def)
qed

end
